theory Spec2Isabelle
  imports Complex_Main "HOL-Library.AList"
begin

unbundle bit_operations_syntax

section \<open>Strings, numbers and exceptions of the Python program\<close>

text \<open>
  The program is \<^verbatim>\<open>src/tracker_app.py\<close>. Python exceptions are values: every
  \<^verbatim>\<open>raise\<close> of the source, and every dictionary or attribute access that can fail, is
  a branch returning \<open>Inl\<close>. The argument is the text \<^verbatim>\<open>str(e)\<close> gives.
\<close>

datatype exn =
    AttributeError string
  | ValueError string
  | KeyError string
  | OverflowError string
  | CvError string

fun str_exn :: "exn \<Rightarrow> string" where
  "str_exn (AttributeError msg) = msg"
| "str_exn (ValueError msg) = msg"
| "str_exn (KeyError msg) = msg"
| "str_exn (OverflowError msg) = msg"
| "str_exn (CvError msg) = msg"

text \<open>\<^verbatim>\<open>str.lower()\<close> on the ASCII letters (method names are ASCII).\<close>

definition lower_char :: "char \<Rightarrow> char" where
  "lower_char c =
     (case map_of (zip ''ABCDEFGHIJKLMNOPQRSTUVWXYZ'' ''abcdefghijklmnopqrstuvwxyz'') c of
        Some d \<Rightarrow> d
      | None \<Rightarrow> c)"

definition lower :: "string \<Rightarrow> string" where
  "lower s = map lower_char s"

text \<open>Decimal rendering of an integer, as an f-string field \<^verbatim>\<open>{n}\<close> prints it.\<close>

fun str_nat :: "nat \<Rightarrow> string" where
  "str_nat n =
     (if n < 10 then [''0123456789'' ! n]
      else str_nat (n div 10) @ [''0123456789'' ! (n mod 10)])"

declare str_nat.simps [simp del]

definition str_int :: "int \<Rightarrow> string" where
  "str_int i = (if i < 0 then CHR ''-'' # str_nat (nat (- i)) else str_nat (nat i))"

text \<open>The f-string field \<^verbatim>\<open>{name:9s}\<close>: left-justified, padded with spaces to nine columns.\<close>

definition ljust :: "nat \<Rightarrow> string \<Rightarrow> string" where
  "ljust n s = s @ replicate (n - length s) CHR '' ''"

text \<open>
  A number of a box a tracker reports: a finite value (a Python int, or a finite float,
  read as the real it denotes), or one of the floats NaN, \<open>inf\<close> and \<open>-inf\<close>.
\<close>

datatype pyfloat = Finite real | NaN | PosInf | NegInf

text \<open>
  \<^verbatim>\<open>int(v)\<close>: a finite value is truncated toward zero; NaN raises ValueError and an
  infinity raises OverflowError.
\<close>

definition toward_zero :: "real \<Rightarrow> int" where
  "toward_zero v = (if 0 \<le> v then \<lfloor>v\<rfloor> else \<lceil>v\<rceil>)"

fun py_int :: "pyfloat \<Rightarrow> exn + int" where
  "py_int (Finite v) = Inr (toward_zero v)"
| "py_int NaN = Inl (ValueError ''cannot convert float NaN to integer'')"
| "py_int PosInf = Inl (OverflowError ''cannot convert float infinity to integer'')"
| "py_int NegInf = Inl (OverflowError ''cannot convert float infinity to integer'')"

section \<open>The external collaborators\<close>

text \<open>
  OpenCV is outside the repository. What the program asks of it is a parameter:
  \<^item> \<open>legacy\<close>: the attributes of \<^verbatim>\<open>cv2.legacy\<close> (\<open>None\<close> when \<^verbatim>\<open>cv2\<close> has no such
    attribute), \<open>cv2_attrs\<close>: the attributes of \<^verbatim>\<open>cv2\<close> itself; an attribute is
    present or not, and calling it gives a tracker object or raises;
  \<^item> \<open>tracker_init\<close>: \<^verbatim>\<open>t.init(frame, bbox)\<close>, which changes the object or raises (its
    return value is ignored by the program);
  \<^item> \<open>tracker_update\<close>: \<^verbatim>\<open>t.update(frame)\<close>, which changes the object and returns
    \<^verbatim>\<open>(ok, bbox)\<close>, or raises;
  \<^item> \<open>cvtColor\<close>: \<^verbatim>\<open>cv2.cvtColor(frame, cv2.COLOR_BGR2GRAY)\<close>;
  \<^item> \<open>crop\<close>: \<^verbatim>\<open>gray[y:y + h, x:x + w].copy()\<close>, with the arguments in the order x, y, w, h;
  \<^item> \<open>match_max\<close>: \<^verbatim>\<open>max_val\<close> and \<^verbatim>\<open>max_loc\<close> of
    \<^verbatim>\<open>cv2.minMaxLoc(cv2.matchTemplate(gray, template, cv2.TM_CCOEFF_NORMED))\<close>.
  \<open>'f\<close> is the type of colour frames, \<open>'g\<close> of grayscale images, \<open>'tr\<close> of tracker
  objects.
\<close>

type_synonym roi = "int \<times> int \<times> int \<times> int"
type_synonym bbox = "pyfloat \<times> pyfloat \<times> pyfloat \<times> pyfloat"

record ('f, 'g, 'tr) cv2 =
  legacy :: "(string \<Rightarrow> (exn + 'tr) option) option"
  cv2_attrs :: "string \<Rightarrow> (exn + 'tr) option"
  tracker_init :: "'tr \<Rightarrow> 'f \<Rightarrow> roi \<Rightarrow> exn + 'tr"
  tracker_update :: "'tr \<Rightarrow> 'f \<Rightarrow> exn + 'tr \<times> bool \<times> bbox"
  cvtColor :: "'f \<Rightarrow> 'g"
  crop :: "'g \<Rightarrow> int \<Rightarrow> int \<Rightarrow> int \<Rightarrow> int \<Rightarrow> 'g"
  match_max :: "'g \<Rightarrow> 'g \<Rightarrow> real \<times> (int \<times> int)"

text \<open>
  The video and the user: whether the capture opened, the first frame (\<open>None\<close> when the
  first \<^verbatim>\<open>cap.read()\<close> fails), the rectangle \<^verbatim>\<open>cv2.selectROI\<close> returns, and the rest of
  the stored video, each frame with the code \<^verbatim>\<open>cv2.waitKey(30)\<close> returns after that frame
  is shown. \<^verbatim>\<open>cap.read()\<close> fails when the list is used up.
\<close>

record 'f world =
  isOpened :: bool
  first_frame :: "'f option"
  selectROI :: roi
  stream :: "('f \<times> int) list"

section \<open>The session state\<close>

text \<open>
  The three dictionaries \<^verbatim>\<open>trackers\<close>, \<^verbatim>\<open>lost\<close> and \<^verbatim>\<open>survival\<close> keep insertion
  order, and an assignment to a key already present keeps its place: association lists
  with \<^const>\<open>AList.update\<close>, read with \<^const>\<open>map_of\<close>. The value of \<^verbatim>\<open>trackers\<close> is
  \<open>None\<close> for Python's \<^verbatim>\<open>None\<close> (the template pseudo entry) and the tracker object
  otherwise; a tracker object changed in place is written back under its name.
  \<open>total_frames\<close> is the counter of line 85 (nothing reads it before, so it is 0 from
  the start), \<open>out\<close> the lines printed so far, one per \<^verbatim>\<open>print\<close> call. \<open>calls\<close> records
  every invocation of a tracking capability, with the number of the frame it ran on:
  \<^verbatim>\<open>cv2.matchTemplate\<close> for the template entry, \<^verbatim>\<open>tracker.update\<close> for a built-in one.
  The overlay drawn on \<^verbatim>\<open>display_frame\<close> goes to the window only and is not modelled.
\<close>

datatype call = MatchCall int | UpdateCall string int

fun call_name :: "call \<Rightarrow> string" where
  "call_name (MatchCall n) = ''template''"
| "call_name (UpdateCall name n) = name"

record 'tr session =
  trackers :: "(string \<times> 'tr option) list"
  lost :: "(string \<times> bool) list"
  survival :: "(string \<times> int) list"
  total_frames :: int
  out :: "string list"
  calls :: "call list"

definition empty_session :: "'tr session" where
  "empty_session =
     \<lparr>trackers = [], lost = [], survival = [], total_frames = 0, out = [], calls = []\<rparr>"

section \<open>Creating the trackers (lines 5 to 28 and 54 to 83)\<close>

text \<open>The nested function \<^verbatim>\<open>_create\<close>: \<^verbatim>\<open>cv2.legacy\<close> first, then \<^verbatim>\<open>cv2\<close>.\<close>

definition create :: "('f, 'g, 'tr) cv2 \<Rightarrow> string \<Rightarrow> exn + 'tr" where
  "create env name =
     (case (case legacy env of None \<Rightarrow> None | Some attrs \<Rightarrow> attrs name) of
        Some made \<Rightarrow> made
      | None \<Rightarrow>
          (case cv2_attrs env name of
             Some made \<Rightarrow> made
           | None \<Rightarrow>
               Inl (AttributeError (''Tracker type '' @ [CHR 0x27] @ name @ [CHR 0x27]
                      @ '' is not available in your OpenCV build.''))))"

definition create_tracker :: "('f, 'g, 'tr) cv2 \<Rightarrow> string \<Rightarrow> exn + 'tr" where
  "create_tracker env tracker_type =
     (let tt = lower tracker_type in
      if tt = ''csrt'' then create env ''TrackerCSRT_create''
      else if tt = ''kcf'' then create env ''TrackerKCF_create''
      else if tt = ''mosse'' then create env ''TrackerMOSSE_create''
      else Inl (ValueError (''Unknown tracker type: '' @ tt)))"

text \<open>The \<^verbatim>\<open>try\<close> block of lines 71 to 77: the tracker the three assignments store, or the
  exception the \<^verbatim>\<open>except\<close> clause catches.\<close>

definition try_init :: "('f, 'g, 'tr) cv2 \<Rightarrow> 'f \<Rightarrow> roi \<Rightarrow> string \<Rightarrow> exn + 'tr" where
  "try_init env frame0 box m =
     (case create_tracker env m of
        Inl e \<Rightarrow> Inl e
      | Inr t \<Rightarrow> tracker_init env t frame0 box)"

definition warn_line :: "string \<Rightarrow> exn \<Rightarrow> string" where
  "warn_line m e =
     ''[WARN] Could not create tracker '' @ [CHR 0x27] @ m @ [CHR 0x27] @ '': '' @ str_exn e"

definition info_line :: "string \<Rightarrow> string" where
  "info_line m = ''[INFO] Initialized tracker: '' @ m"

text \<open>One iteration of the loop of lines 68 to 79.\<close>

definition init_one ::
  "('f, 'g, 'tr) cv2 \<Rightarrow> 'f \<Rightarrow> roi \<Rightarrow> string \<Rightarrow> 'tr session \<Rightarrow> 'tr session" where
  "init_one env frame0 box m s =
     (if m = ''template'' then s
      else
        (case try_init env frame0 box m of
           Inr t \<Rightarrow>
             s\<lparr>trackers := AList.update m (Some t) (trackers s),
               lost := AList.update m False (lost s),
               survival := AList.update m 0 (survival s),
               out := out s @ [info_line m]\<rparr>
         | Inl e \<Rightarrow> s\<lparr>out := out s @ [warn_line m e]\<rparr>))"

fun init_loop ::
  "('f, 'g, 'tr) cv2 \<Rightarrow> 'f \<Rightarrow> roi \<Rightarrow> string list \<Rightarrow> 'tr session \<Rightarrow> 'tr session" where
  "init_loop env frame0 box [] s = s"
| "init_loop env frame0 box (m # ms) s = init_loop env frame0 box ms (init_one env frame0 box m s)"

text \<open>Lines 54 to 65: the empty dictionaries, and the template entry when it is requested.\<close>

definition init_template :: "string list \<Rightarrow> 'tr session \<Rightarrow> 'tr session" where
  "init_template methods s =
     (if ''template'' \<in> set methods
      then s\<lparr>trackers := AList.update ''template'' None (trackers s),
             lost := AList.update ''template'' False (lost s),
             survival := AList.update ''template'' 0 (survival s)\<rparr>
      else s)"

section \<open>The frame loop (lines 85 to 154)\<close>

text \<open>
  Nothing in the loop catches an exception, and what was assigned before a \<^verbatim>\<open>raise\<close>
  stays assigned. A step of the loop therefore returns the state it reached together
  with the exception that ended it, \<open>None\<close> when it ran to its end.
\<close>

type_synonym 'tr stepped = "'tr session \<times> exn option"

definition threshold :: real where
  "threshold = 0.5"

text \<open>
  Lines 96 to 112. The variables \<^verbatim>\<open>use_template\<close> and \<^verbatim>\<open>template\<close> are one option
  value: \<open>Some template\<close> exactly when \<^verbatim>\<open>use_template\<close> is true (\<^verbatim>\<open>template\<close> is bound
  only then). A missing key of \<^verbatim>\<open>lost\<close> or \<^verbatim>\<open>survival\<close> raises KeyError.
\<close>

definition template_step ::
  "('f, 'g, 'tr) cv2 \<Rightarrow> 'g option \<Rightarrow> 'f \<Rightarrow> 'tr session \<Rightarrow> 'tr stepped" where
  "template_step env tmpl frame s =
     (case tmpl of
        None \<Rightarrow> (s, None)
      | Some template \<Rightarrow>
          (case map_of (lost s) ''template'' of
             None \<Rightarrow> (s, Some (KeyError ''template''))
           | Some True \<Rightarrow> (s, None)
           | Some False \<Rightarrow>
               (let gray = cvtColor env frame;
                    (max_val, max_loc) = match_max env gray template;
                    s1 = s\<lparr>calls := calls s @ [MatchCall (total_frames s)]\<rparr>
                in if max_val < threshold
                   then (s1\<lparr>lost := AList.update ''template'' True (lost s1)\<rparr>, None)
                   else
                     (case map_of (survival s1) ''template'' of
                        None \<Rightarrow> (s1, Some (KeyError ''template''))
                      | Some c \<Rightarrow>
                          (s1\<lparr>survival := AList.update ''template'' (c + 1) (survival s1)\<rparr>,
                           None)))))"

text \<open>Line 126, \<^verbatim>\<open>[int(v) for v in bbox]\<close>: the four conversions in order, ended by the
  first that raises.\<close>

definition int_box :: "bbox \<Rightarrow> exn + (int \<times> int \<times> int \<times> int)" where
  "int_box bbox =
     (case bbox of (v1, v2, v3, v4) \<Rightarrow>
        (case py_int v1 of Inl e \<Rightarrow> Inl e | Inr bx \<Rightarrow>
        (case py_int v2 of Inl e \<Rightarrow> Inl e | Inr by \<Rightarrow>
        (case py_int v3 of Inl e \<Rightarrow> Inl e | Inr bw \<Rightarrow>
        (case py_int v4 of Inl e \<Rightarrow> Inl e | Inr bh \<Rightarrow> Inr (bx, by, bw, bh))))))"

text \<open>
  The body of the loop of lines 115 to 131, for one item of \<^verbatim>\<open>trackers.items()\<close>.
  \<^verbatim>\<open>lost.get(name, True)\<close> is true for a missing name; \<^verbatim>\<open>tracker.update\<close> on
  \<^verbatim>\<open>None\<close> raises AttributeError. An exception of \<^verbatim>\<open>tracker.update\<close> (line 121) or
  of \<^verbatim>\<open>int\<close> (line 126) ends the step: the invocation is on record, and in the second
  case the tracker object has changed, but neither \<^verbatim>\<open>lost\<close> nor \<^verbatim>\<open>survival\<close> has.
\<close>

definition builtin_step ::
  "('f, 'g, 'tr) cv2 \<Rightarrow> 'f \<Rightarrow> string \<Rightarrow> 'tr option \<Rightarrow> 'tr session \<Rightarrow> 'tr stepped" where
  "builtin_step env frame name tracker s =
     (if name = ''template'' then (s, None)
      else if (case map_of (lost s) name of None \<Rightarrow> True | Some l \<Rightarrow> l) then (s, None)
      else
        (case tracker of
           None \<Rightarrow> (s, Some (AttributeError ''update''))
         | Some t \<Rightarrow>
             (case tracker_update env t frame of
                Inl e \<Rightarrow> (s\<lparr>calls := calls s @ [UpdateCall name (total_frames s)]\<rparr>, Some e)
              | Inr (t', ok, bbox) \<Rightarrow>
                  (let s1 = s\<lparr>trackers := AList.update name (Some t') (trackers s),
                              calls := calls s @ [UpdateCall name (total_frames s)]\<rparr>
                   in if \<not> ok then (s1\<lparr>lost := AList.update name True (lost s1)\<rparr>, None)
                      else
                        (case int_box bbox of
                           Inl e \<Rightarrow> (s1, Some e)
                         | Inr (bx, by, bw, bh) \<Rightarrow>
                             if bw \<le> 0 \<or> bh \<le> 0
                             then (s1\<lparr>lost := AList.update name True (lost s1)\<rparr>, None)
                             else
                               (case map_of (survival s1) name of
                                  None \<Rightarrow> (s1, Some (KeyError name))
                                | Some c \<Rightarrow>
                                    (s1\<lparr>survival :=
                                         AList.update name (c + 1) (survival s1)\<rparr>,
                                     None)))))))"

fun builtin_loop ::
  "('f, 'g, 'tr) cv2 \<Rightarrow> 'f \<Rightarrow> (string \<times> 'tr option) list \<Rightarrow> 'tr session
     \<Rightarrow> 'tr stepped" where
  "builtin_loop env frame [] s = (s, None)"
| "builtin_loop env frame ((name, tracker) # items) s =
     (case builtin_step env frame name tracker s of
        (s', Some e) \<Rightarrow> (s', Some e)
      | (s', None) \<Rightarrow> builtin_loop env frame items s')"

text \<open>Lines 91 to 146: one frame that was read.\<close>

definition process_frame ::
  "('f, 'g, 'tr) cv2 \<Rightarrow> 'g option \<Rightarrow> 'f \<Rightarrow> 'tr session \<Rightarrow> 'tr stepped" where
  "process_frame env tmpl frame s =
     (case template_step env tmpl frame (s\<lparr>total_frames := total_frames s + 1\<rparr>) of
        (s1, Some e) \<Rightarrow> (s1, Some e)
      | (s1, None) \<Rightarrow> builtin_loop env frame (trackers s1) s1)"

text \<open>Line 150 and 153: the key code, and the test for ESC or \<^verbatim>\<open>q\<close>.\<close>

definition quit_key :: "int \<Rightarrow> bool" where
  "quit_key code = (let key = code AND 255 in key = 27 \<or> key = 113)"

text \<open>The \<^verbatim>\<open>while True\<close> loop: the state it ends in, the part of the video never read,
  and the exception that ended it, if one did.\<close>

fun run_loop ::
  "('f, 'g, 'tr) cv2 \<Rightarrow> 'g option \<Rightarrow> 'tr session \<Rightarrow> ('f \<times> int) list
     \<Rightarrow> 'tr session \<times> ('f \<times> int) list \<times> exn option" where
  "run_loop env tmpl s [] = (s, [], None)"
| "run_loop env tmpl s ((frame, code) # cap) =
     (case process_frame env tmpl frame s of
        (s', Some e) \<Rightarrow> (s', cap, Some e)
      | (s', None) \<Rightarrow> if quit_key code then (s', cap, None) else run_loop env tmpl s' cap)"

section \<open>The summary (lines 159 to 163) and the whole run\<close>

definition summary_line :: "int \<Rightarrow> string \<times> int \<Rightarrow> string" where
  "summary_line tot item =
     (case item of (name, count) \<Rightarrow>
        ljust 9 name @ '': survived '' @ str_int count @ '' / '' @ str_int tot @ '' frames'')"

definition summary :: "'tr session \<Rightarrow> string list" where
  "summary s =
     [CHR 0x0A # ''=== Tracking survival summary ==='',
      ''Total frames processed: '' @ str_int (total_frames s)]
     @ map (summary_line (total_frames s)) (survival s)"

definition roi_prompt :: "string list" where
  "roi_prompt =
     [''[INFO] A window called '' @ [CHR 0x27] @ ''Select ROI'' @ [CHR 0x27]
        @ '' should appear.'',
      ''       Use the mouse to drag a box around your object.'',
      ''       Then press ENTER or SPACE to confirm, or '' @ [CHR 0x27] @ ''c''
        @ [CHR 0x27] @ '' to cancel.'']"

text \<open>
  How a call of \<^verbatim>\<open>run_tracking\<close> ends: an early \<^verbatim>\<open>return\<close> (\<open>Aborted\<close>) or the end of
  the function (\<open>Finished\<close>), each with the state at that point and the part of the video
  not read; or the exception that left the frame loop (\<open>Inl\<close>), after which nothing more
  is printed.
\<close>

datatype ('f, 'tr) outcome =
    Aborted "'tr session" "('f \<times> int) list"
  | Finished "'tr session" "('f \<times> int) list"

text \<open>Lines 54 to 79: the state the test of line 81 sees.\<close>

definition init_session ::
  "('f, 'g, 'tr) cv2 \<Rightarrow> 'f \<Rightarrow> roi \<Rightarrow> string list \<Rightarrow> 'tr session" where
  "init_session env frame0 box methods =
     init_loop env frame0 box methods
       (init_template methods (empty_session\<lparr>out := roi_prompt\<rparr>))"

definition make_template ::
  "('f, 'g, 'tr) cv2 \<Rightarrow> 'f \<Rightarrow> roi \<Rightarrow> string list \<Rightarrow> 'g option" where
  "make_template env frame0 box methods =
     (case box of (x, y, w, h) \<Rightarrow>
        if ''template'' \<in> set methods then Some (crop env (cvtColor env frame0) x y w h)
        else None)"

definition run_tracking ::
  "('f, 'g, 'tr) cv2 \<Rightarrow> 'f world \<Rightarrow> string \<Rightarrow> string list \<Rightarrow> exn + ('f, 'tr) outcome" where
  "run_tracking env wd video_path methods =
     (if \<not> isOpened wd
      then Inr (Aborted (empty_session\<lparr>out := [''[ERROR] Could not open video: '' @ video_path]\<rparr>)
                  (stream wd))
      else
        (case first_frame wd of
           None \<Rightarrow>
             Inr (Aborted
                    (empty_session\<lparr>out := [''[ERROR] Could not read first frame from video.'']\<rparr>)
                    (stream wd))
         | Some frame0 \<Rightarrow>
             (case selectROI wd of (x, y, w, h) \<Rightarrow>
                if w = 0 \<or> h = 0
                then Inr (Aborted
                            (empty_session\<lparr>out := roi_prompt
                                               @ [''[ERROR] Empty ROI selected. Exiting.'']\<rparr>)
                            (stream wd))
                else
                  (let template = make_template env frame0 (x, y, w, h) methods;
                       s = init_session env frame0 (x, y, w, h) methods
                   in if trackers s = []
                      then Inr (Aborted
                                  (s\<lparr>out := out s
                                        @ [''[ERROR] No valid trackers initialized. Exiting.'']\<rparr>)
                                  (stream wd))
                      else
                        (case run_loop env template (s\<lparr>total_frames := 0\<rparr>) (stream wd) of
                           (s', unread, Some e) \<Rightarrow> Inl e
                         | (s', unread, None) \<Rightarrow>
                             Inr (Finished (s'\<lparr>out := out s' @ summary s'\<rparr>) unread))))))"

section \<open>Sessions, entries and the invariant of the dictionaries\<close>

text \<open>
  The state a session is in when the frame loop has run over \<open>cap\<close>, from the first
  frame, the selected region and the requested methods (lines 54 to 154, past the test
  of line 81), with the frames left unread and the exception that ended the loop, if any.
\<close>

definition session_after ::
  "('f, 'g, 'tr) cv2 \<Rightarrow> 'f \<Rightarrow> roi \<Rightarrow> string list \<Rightarrow> ('f \<times> int) list
     \<Rightarrow> 'tr session \<times> ('f \<times> int) list \<times> exn option" where
  "session_after env frame0 box methods cap =
     run_loop env (make_template env frame0 box methods)
       ((init_session env frame0 box methods)\<lparr>total_frames := 0\<rparr>) cap"

text \<open>What the session holds under one name: the tracker object, the lost flag, the
  survival count, and the capability invocations made for that name.\<close>

definition calls_of :: "string \<Rightarrow> 'tr session \<Rightarrow> call list" where
  "calls_of name s = filter (\<lambda>c. call_name c = name) (calls s)"

definition entry ::
  "'tr session \<Rightarrow> string \<Rightarrow> 'tr option option \<times> bool option \<times> int option \<times> call list" where
  "entry s name =
     (map_of (trackers s) name, map_of (lost s) name, map_of (survival s) name, calls_of name s)"

definition names :: "'tr session \<Rightarrow> string list" where
  "names s = map fst (trackers s)"

text \<open>
  The invariant of the three dictionaries: the same keys in the same order, every
  built-in entry holds a tracker object, and the template entry is there when the
  template is used.
\<close>

definition session_ok :: "'g option \<Rightarrow> 'tr session \<Rightarrow> bool" where
  "session_ok tmpl s \<longleftrightarrow>
     map fst (lost s) = names s \<and> map fst (survival s) = names s \<and> distinct (names s)
     \<and> (\<forall>item \<in> set (trackers s). fst item \<noteq> ''template'' \<longrightarrow> snd item \<noteq> None)
     \<and> (tmpl \<noteq> None \<longrightarrow> ''template'' \<in> set (names s))"

text \<open>The state of a session before its first frame: nothing counted, nothing lost, no
  capability invoked.\<close>

definition fresh :: "'tr session \<Rightarrow> bool" where
  "fresh s \<longleftrightarrow>
     total_frames s = 0 \<and> calls s = []
     \<and> (\<forall>item \<in> set (lost s). snd item = False)
     \<and> (\<forall>item \<in> set (survival s). snd item = 0)"

text \<open>
  A tracker library that behaves: no update raises, and a box reported together with
  \<^verbatim>\<open>ok\<close> consists of four finite numbers. Then nothing in the frame loop raises.
\<close>

definition finite_box :: "bbox \<Rightarrow> bool" where
  "finite_box bbox \<longleftrightarrow>
     (case bbox of (v1, v2, v3, v4) \<Rightarrow>
        (\<exists>x y w h. v1 = Finite x \<and> v2 = Finite y \<and> v3 = Finite w \<and> v4 = Finite h))"

definition updates_ok :: "('f, 'g, 'tr) cv2 \<Rightarrow> bool" where
  "updates_ok env \<longleftrightarrow>
     (\<forall>t frame. \<exists>t' ok bbox.
        tracker_update env t frame = Inr (t', ok, bbox) \<and> (ok \<longrightarrow> finite_box bbox))"

text \<open>The number of frames the loop reads when nothing raises: all of them, or those up to the first frame
  after which a quit key is seen.\<close>

fun frames_consumed :: "('f \<times> int) list \<Rightarrow> nat" where
  "frames_consumed [] = 0"
| "frames_consumed ((frame, code) # cap) =
     (if quit_key code then 1 else Suc (frames_consumed cap))"

text \<open>The names in the order of their first occurrence.\<close>

fun first_occurrences :: "'a list \<Rightarrow> 'a list \<Rightarrow> 'a list" where
  "first_occurrences seen [] = []"
| "first_occurrences seen (x # xs) =
     (if x \<in> set seen then first_occurrences seen xs
      else x # first_occurrences (x # seen) xs)"

text \<open>Whether the \<^verbatim>\<open>try\<close> block of a method succeeds, and the methods whose entry is
  initialized, in the order in which that happens: the template first.\<close>

definition initializes :: "('f, 'g, 'tr) cv2 \<Rightarrow> 'f \<Rightarrow> roi \<Rightarrow> string \<Rightarrow> bool" where
  "initializes env frame0 box m \<longleftrightarrow> m \<noteq> ''template'' \<and> isl (try_init env frame0 box m) = False"

definition init_order :: "('f, 'g, 'tr) cv2 \<Rightarrow> 'f \<Rightarrow> roi \<Rightarrow> string list \<Rightarrow> string list" where
  "init_order env frame0 box methods =
     first_occurrences []
       ((if ''template'' \<in> set methods then [''template''] else [])
        @ filter (initializes env frame0 box) methods)"

section \<open>Concrete sessions\<close>

text \<open>
  A frame is the confidence the matcher finds on it and what every built-in tracker's
  update answers on it, the box as four finite numbers; a tracker object counts its
  updates. \<^verbatim>\<open>cv2.legacy\<close> is absent, CSRT can be constructed and initialized, the KCF
  constructor raises, and MOSSE is constructed (as the object 7) but its \<^verbatim>\<open>init\<close>
  raises.
\<close>

definition demo_env :: "(real \<times> bool \<times> real \<times> real \<times> real \<times> real, real, nat) cv2" where
  "demo_env =
     \<lparr>legacy = None,
      cv2_attrs =
        (\<lambda>name. if name = ''TrackerCSRT_create'' then Some (Inr 0)
                else if name = ''TrackerMOSSE_create'' then Some (Inr 7)
                else if name = ''TrackerKCF_create'' then Some (Inl (CvError ''no KCF''))
                else None),
      tracker_init =
        (\<lambda>t frame box. if t = 7 then Inl (CvError ''init failed'') else Inr t),
      tracker_update =
        (\<lambda>t frame. case snd frame of (ok, x, y, w, h) \<Rightarrow>
           Inr (Suc t, ok, Finite x, Finite y, Finite w, Finite h)),
      cvtColor = fst,
      crop = (\<lambda>gray x y w h. gray),
      match_max = (\<lambda>gray template. (gray, (0, 0)))\<rparr>"

definition good :: "bool \<times> real \<times> real \<times> real \<times> real" where
  "good = (True, (10, 10, 20, 20))"

definition demo_frame0 :: "real \<times> bool \<times> real \<times> real \<times> real \<times> real" where
  "demo_frame0 = (1, good)"

definition demo_box :: roi where
  "demo_box = (5, 5, 20, 20)"

definition demo_cap :: "((real \<times> bool \<times> real \<times> real \<times> real \<times> real) \<times> int) list" where
  "demo_cap =
     [((0.9, good), - 1), ((0.8, good), - 1), ((0.4, True, (10, 10, 0, 5)), - 1),
      ((0.9, good), - 1)]"

definition demo_world :: "(real \<times> bool \<times> real \<times> real \<times> real \<times> real) world" where
  "demo_world =
     \<lparr>isOpened = True, first_frame = Some demo_frame0, selectROI = demo_box,
      stream = demo_cap\<rparr>"

text \<open>
  A tracker library that does not behave: the frame carries the box as the update
  reports it, NaN and infinities included, and the update raises on a frame of negative
  confidence.
\<close>

definition raw_env :: "(real \<times> bool \<times> bbox, real, nat) cv2" where
  "raw_env =
     \<lparr>legacy = None,
      cv2_attrs = (\<lambda>name. if name = ''TrackerCSRT_create'' then Some (Inr 0) else None),
      tracker_init = (\<lambda>t frame box. Inr t),
      tracker_update =
        (\<lambda>t frame. if fst frame < 0 then Inl (CvError ''update failed'')
                   else Inr (Suc t, snd frame)),
      cvtColor = fst,
      crop = (\<lambda>gray x y w h. gray),
      match_max = (\<lambda>gray template. (gray, (0, 0)))\<rparr>"

definition raw_frame0 :: "real \<times> bool \<times> bbox" where
  "raw_frame0 = (1, True, (Finite 10, Finite 10, Finite 20, Finite 20))"

section \<open>Lemmas about the steps and their iteration\<close>

subsection \<open>The template step\<close>

lemma map_of_in_keys: "k \<in> set (map fst al) \<Longrightarrow> \<exists>v. map_of al k = Some v"
  by (induction al) auto

lemma template_step_active:
  assumes "map_of (lost s) ''template'' = Some False"
    and "map_of (survival s) ''template'' = Some c"
  shows "template_step env (Some template) frame s =
           (if fst (match_max env (cvtColor env frame) template) < threshold
            then s\<lparr>calls := calls s @ [MatchCall (total_frames s)],
                   lost := AList.update ''template'' True (lost s)\<rparr>
            else s\<lparr>calls := calls s @ [MatchCall (total_frames s)],
                   survival := AList.update ''template'' (c + 1) (survival s)\<rparr>,
            None)"
  using assms by (simp add: template_step_def Let_def split: prod.splits)

lemma template_step_idle:
  "tmpl = None \<or> map_of (lost s) ''template'' = Some True
     \<Longrightarrow> template_step env tmpl frame s = (s, None)"
  by (auto simp: template_step_def split: option.splits)

lemma template_step_cases:
  assumes "template_step env tmpl frame s = (s', err)"
  obtains
    (idle) "s' = s"
  | (lose) "map_of (lost s) ''template'' = Some False"
      "s' = s\<lparr>calls := calls s @ [MatchCall (total_frames s)],
              lost := AList.update ''template'' True (lost s)\<rparr>"
      "err = None"
  | (keep) c where "map_of (lost s) ''template'' = Some False"
      "map_of (survival s) ''template'' = Some c"
      "s' = s\<lparr>calls := calls s @ [MatchCall (total_frames s)],
              survival := AList.update ''template'' (c + 1) (survival s)\<rparr>"
      "err = None"
  | (stuck) "map_of (lost s) ''template'' = Some False"
      "map_of (survival s) ''template'' = None"
      "s' = s\<lparr>calls := calls s @ [MatchCall (total_frames s)]\<rparr>"
      "err \<noteq> None"
proof (cases "tmpl = None \<or> map_of (lost s) ''template'' = Some True")
  case True
  with assms have "s' = s" by (simp add: template_step_idle)
  then show thesis by (rule idle)
next
  case False
  then obtain template where tm: "tmpl = Some template" by auto
  show thesis
  proof (cases "map_of (lost s) ''template''")
    case None
    with assms tm have "s' = s" by (simp add: template_step_def)
    then show thesis by (rule idle)
  next
    case (Some l)
    with False have lf: "map_of (lost s) ''template'' = Some False" by simp
    show thesis
    proof (cases "fst (match_max env (cvtColor env frame) template) < threshold")
      case True
      with assms tm lf
      have "s' = s\<lparr>calls := calls s @ [MatchCall (total_frames s)],
              lost := AList.update ''template'' True (lost s)\<rparr> \<and> err = None"
        by (auto simp add: template_step_def Let_def split: prod.splits)
      with lf show thesis by (intro lose) simp_all
    next
      case below: False
      show thesis
      proof (cases "map_of (survival s) ''template''")
        case None
        with assms tm lf below
        have "s' = s\<lparr>calls := calls s @ [MatchCall (total_frames s)]\<rparr> \<and> err \<noteq> None"
          by (auto simp add: template_step_def Let_def split: prod.splits)
        with lf None show thesis by (intro stuck) simp_all
      next
        case (Some c)
        with assms tm below
        have "s' = s\<lparr>calls := calls s @ [MatchCall (total_frames s)],
              survival := AList.update ''template'' (c + 1) (survival s)\<rparr> \<and> err = None"
          by (simp add: template_step_active [OF lf Some])
        with lf Some show thesis by (intro keep) simp_all
      qed
    qed
  qed
qed

lemma template_step_calm:
  assumes "session_ok tmpl s"
  shows "snd (template_step env tmpl frame s) = None"
proof (cases tmpl)
  case None
  then show ?thesis by (simp add: template_step_idle)
next
  case (Some template)
  with assms have "''template'' \<in> set (map fst (lost s))"
    "''template'' \<in> set (map fst (survival s))"
    by (simp_all add: session_ok_def)
  then obtain l c where lc: "map_of (lost s) ''template'' = Some l"
    "map_of (survival s) ''template'' = Some c"
    using map_of_in_keys by metis
  show ?thesis
  proof (cases l)
    case True
    with lc show ?thesis by (simp add: template_step_idle)
  next
    case False
    with lc Some show ?thesis by (simp add: template_step_active)
  qed
qed

subsection \<open>The step of a built-in tracker\<close>

lemma int_box_finite:
  "int_box (Finite v1, Finite v2, Finite v3, Finite v4)
     = Inr (toward_zero v1, toward_zero v2, toward_zero v3, toward_zero v4)"
  by (simp add: int_box_def)

lemma int_box_raises:
  "finite_box bbox \<or> (\<exists>e. int_box bbox = Inl e)"
proof -
  obtain v1 v2 v3 v4 where b: "bbox = (v1, v2, v3, v4)" by (cases bbox) auto
  show ?thesis unfolding b
    by (cases v1; cases v2; cases v3; cases v4) (simp_all add: int_box_def finite_box_def)
qed

lemma builtin_step_idle:
  "name = ''template'' \<or> map_of (lost s) name \<noteq> Some False
     \<Longrightarrow> builtin_step env frame name tracker s = (s, None)"
  by (auto simp: builtin_step_def split: option.splits)

lemma builtin_step_raised:
  assumes "name \<noteq> ''template''" and "map_of (lost s) name = Some False"
    and "tracker_update env t frame = Inl e"
  shows "builtin_step env frame name (Some t) s =
           (s\<lparr>calls := calls s @ [UpdateCall name (total_frames s)]\<rparr>, Some e)"
  using assms by (simp add: builtin_step_def)

lemma builtin_step_failed:
  assumes "name \<noteq> ''template''" and "map_of (lost s) name = Some False"
    and "tracker_update env t frame = Inr (t', False, bbox)"
  shows "builtin_step env frame name (Some t) s =
           (s\<lparr>trackers := AList.update name (Some t') (trackers s),
              calls := calls s @ [UpdateCall name (total_frames s)],
              lost := AList.update name True (lost s)\<rparr>, None)"
  using assms by (simp add: builtin_step_def Let_def)

lemma builtin_step_halted:
  assumes "name \<noteq> ''template''" and "map_of (lost s) name = Some False"
    and "tracker_update env t frame = Inr (t', True, bbox)" and "int_box bbox = Inl e"
  shows "builtin_step env frame name (Some t) s =
           (s\<lparr>trackers := AList.update name (Some t') (trackers s),
              calls := calls s @ [UpdateCall name (total_frames s)]\<rparr>, Some e)"
  using assms by (simp add: builtin_step_def Let_def)

lemma builtin_step_degenerate:
  assumes "name \<noteq> ''template''" and "map_of (lost s) name = Some False"
    and "tracker_update env t frame = Inr (t', True, bbox)"
    and "int_box bbox = Inr (bx, by, bw, bh)" and "bw \<le> 0 \<or> bh \<le> 0"
  shows "builtin_step env frame name (Some t) s =
           (s\<lparr>trackers := AList.update name (Some t') (trackers s),
              calls := calls s @ [UpdateCall name (total_frames s)],
              lost := AList.update name True (lost s)\<rparr>, None)"
  using assms by (simp add: builtin_step_def Let_def)

lemma builtin_step_tracked:
  assumes "name \<noteq> ''template''" and "map_of (lost s) name = Some False"
    and "tracker_update env t frame = Inr (t', True, bbox)"
    and "int_box bbox = Inr (bx, by, bw, bh)" and "0 < bw" and "0 < bh"
  shows "builtin_step env frame name (Some t) s =
           (case map_of (survival s) name of
              None \<Rightarrow>
                (s\<lparr>trackers := AList.update name (Some t') (trackers s),
                   calls := calls s @ [UpdateCall name (total_frames s)]\<rparr>,
                 Some (KeyError name))
            | Some c \<Rightarrow>
                (s\<lparr>trackers := AList.update name (Some t') (trackers s),
                   calls := calls s @ [UpdateCall name (total_frames s)],
                   survival := AList.update name (c + 1) (survival s)\<rparr>, None))"
  using assms by (simp add: builtin_step_def Let_def split: option.splits)

lemma builtin_step_cases:
  assumes "builtin_step env frame name tracker s = (s', err)"
  obtains
    (idle) "s' = s"
  | (lose) t' where "name \<noteq> ''template''" "map_of (lost s) name = Some False"
      "s' = s\<lparr>trackers := AList.update name (Some t') (trackers s),
              calls := calls s @ [UpdateCall name (total_frames s)],
              lost := AList.update name True (lost s)\<rparr>"
      "err = None"
  | (keep) t' c where "name \<noteq> ''template''" "map_of (lost s) name = Some False"
      "map_of (survival s) name = Some c"
      "s' = s\<lparr>trackers := AList.update name (Some t') (trackers s),
              calls := calls s @ [UpdateCall name (total_frames s)],
              survival := AList.update name (c + 1) (survival s)\<rparr>"
      "err = None"
  | (raised) "name \<noteq> ''template''" "map_of (lost s) name = Some False"
      "s' = s\<lparr>calls := calls s @ [UpdateCall name (total_frames s)]\<rparr>"
      "err \<noteq> None"
  | (halted) t' where "name \<noteq> ''template''" "map_of (lost s) name = Some False"
      "s' = s\<lparr>trackers := AList.update name (Some t') (trackers s),
              calls := calls s @ [UpdateCall name (total_frames s)]\<rparr>"
      "err \<noteq> None"
proof (cases "name = ''template'' \<or> map_of (lost s) name \<noteq> Some False")
  case True
  with assms have "s' = s" by (simp add: builtin_step_idle)
  then show thesis by (rule idle)
next
  case False
  then have nt: "name \<noteq> ''template''" and lf: "map_of (lost s) name = Some False" by auto
  show thesis
  proof (cases tracker)
    case None
    with assms nt lf have "s' = s" by (simp add: builtin_step_def)
    then show thesis by (rule idle)
  next
    case (Some t)
    show thesis
    proof (cases "tracker_update env t frame")
      case (Inl e)
      from assms Some have "s' = s\<lparr>calls := calls s @ [UpdateCall name (total_frames s)]\<rparr>"
        and "err \<noteq> None"
        by (auto simp add: builtin_step_raised [OF nt lf Inl])
      with nt lf show thesis by (intro raised)
    next
      case (Inr answer)
      obtain t' ok bbox where up: "tracker_update env t frame = Inr (t', ok, bbox)"
        using Inr by (cases answer) auto
      show thesis
      proof (cases ok)
        case False
        with up have up': "tracker_update env t frame = Inr (t', False, bbox)" by simp
        from assms Some
        have "s' = s\<lparr>trackers := AList.update name (Some t') (trackers s),
              calls := calls s @ [UpdateCall name (total_frames s)],
              lost := AList.update name True (lost s)\<rparr>" and "err = None"
          by (simp_all add: builtin_step_failed [OF nt lf up'])
        with nt lf show thesis by (intro lose)
      next
        case True
        with up have up': "tracker_update env t frame = Inr (t', True, bbox)" by simp
        show thesis
        proof (cases "int_box bbox")
          case (Inl e)
          from assms Some
          have "s' = s\<lparr>trackers := AList.update name (Some t') (trackers s),
              calls := calls s @ [UpdateCall name (total_frames s)]\<rparr>" and "err \<noteq> None"
            by (auto simp add: builtin_step_halted [OF nt lf up' Inl])
          with nt lf show thesis by (intro halted)
        next
          case (Inr ints)
          obtain bx "by" bw bh where ib: "int_box bbox = Inr (bx, by, bw, bh)"
            using Inr by (cases ints) auto
          show thesis
          proof (cases "bw \<le> 0 \<or> bh \<le> 0")
            case True
            from assms Some
            have "s' = s\<lparr>trackers := AList.update name (Some t') (trackers s),
              calls := calls s @ [UpdateCall name (total_frames s)],
              lost := AList.update name True (lost s)\<rparr>" and "err = None"
              by (simp_all add: builtin_step_degenerate [OF nt lf up' ib True])
            with nt lf show thesis by (intro lose)
          next
            case False
            then have pos: "0 < bw" "0 < bh" by auto
            note eq = builtin_step_tracked [OF nt lf up' ib pos]
            show thesis
            proof (cases "map_of (survival s) name")
              case None
              from assms Some None
              have "s' = s\<lparr>trackers := AList.update name (Some t') (trackers s),
                calls := calls s @ [UpdateCall name (total_frames s)]\<rparr>" and "err \<noteq> None"
                by (auto simp add: eq)
              with nt lf show thesis by (intro halted)
            next
              case count: (Some c)
              from assms Some count
              have "s' = s\<lparr>trackers := AList.update name (Some t') (trackers s),
                calls := calls s @ [UpdateCall name (total_frames s)],
                survival := AList.update name (c + 1) (survival s)\<rparr>" and "err = None"
                by (simp_all add: eq)
              with nt lf count show thesis by (intro keep)
            qed
          qed
        qed
      qed
    qed
  qed
qed

lemma builtin_step_calm:
  assumes "session_ok tmpl s" and "name \<in> set (names s)"
    and "name \<noteq> ''template'' \<longrightarrow> tracker \<noteq> None" and "updates_ok env"
  shows "snd (builtin_step env frame name tracker s) = None"
proof (cases "name = ''template'' \<or> map_of (lost s) name \<noteq> Some False")
  case True
  then show ?thesis by (simp add: builtin_step_idle)
next
  case False
  then have nt: "name \<noteq> ''template''" and lf: "map_of (lost s) name = Some False" by auto
  from assms nt obtain t where t: "tracker = Some t" by auto
  from assms have "name \<in> set (map fst (survival s))" by (simp add: session_ok_def)
  then obtain c where c: "map_of (survival s) name = Some c"
    using map_of_in_keys by metis
  from assms(4) obtain t' ok bbox where
    up: "tracker_update env t frame = Inr (t', ok, bbox)" and fin: "ok \<longrightarrow> finite_box bbox"
    unfolding updates_ok_def by blast
  show ?thesis
  proof (cases ok)
    case False
    with up have "tracker_update env t frame = Inr (t', False, bbox)" by simp
    from builtin_step_failed [OF nt lf this] t show ?thesis by simp
  next
    case True
    with up have up': "tracker_update env t frame = Inr (t', True, bbox)" by simp
    from True fin obtain x y w h where
      b: "bbox = (Finite x, Finite y, Finite w, Finite h)"
      by (cases bbox) (auto simp: finite_box_def)
    have ib: "int_box bbox = Inr (toward_zero x, toward_zero y, toward_zero w, toward_zero h)"
      unfolding b by (rule int_box_finite)
    show ?thesis
    proof (cases "toward_zero w \<le> 0 \<or> toward_zero h \<le> 0")
      case True
      from builtin_step_degenerate [OF nt lf up' ib True] t show ?thesis by simp
    next
      case False
      then have "0 < toward_zero w" "0 < toward_zero h" by auto
      from builtin_step_tracked [OF nt lf up' ib this] t c show ?thesis by simp
    qed
  qed
qed

subsection \<open>Association lists and entries\<close>

lemma update_keys_present:
  "map_of al k \<noteq> None \<Longrightarrow> map fst (AList.update k w al) = map fst al"
  by (induction al) auto

lemma update_keys_member:
  "k \<in> set (map fst al) \<Longrightarrow> map fst (AList.update k w al) = map fst al"
  by (simp add: update_keys)

lemma set_update_subset: "set (AList.update k v al) \<subseteq> insert (k, v) (set al)"
  by (induction al) auto

lemma entry_total_frames [simp]: "entry (s\<lparr>total_frames := n\<rparr>) name = entry s name"
  by (simp add: entry_def calls_of_def)

lemma entry_out [simp]: "entry (s\<lparr>out := n\<rparr>) name = entry s name"
  by (simp add: entry_def calls_of_def)

subsection \<open>What a step leaves alone\<close>

lemma template_step_shape:
  assumes "template_step env tmpl frame s = (s', err)"
  shows "trackers s' = trackers s \<and> map fst (lost s') = map fst (lost s)
         \<and> map fst (survival s') = map fst (survival s)
         \<and> total_frames s' = total_frames s \<and> out s' = out s"
  using assms by (cases rule: template_step_cases) (simp_all add: update_keys_present)

lemma template_step_entry:
  assumes "template_step env tmpl frame s = (s', err)"
    and "name \<noteq> ''template'' \<or> map_of (lost s) ''template'' \<noteq> Some False"
  shows "entry s' name = entry s name"
  using assms
  by (cases rule: template_step_cases) (auto simp: entry_def calls_of_def update_conv')

lemma builtin_step_shape:
  assumes "builtin_step env frame name tracker s = (s', err)" and "name \<in> set (names s)"
  shows "names s' = names s \<and> map fst (lost s') = map fst (lost s)
         \<and> map fst (survival s') = map fst (survival s)
         \<and> total_frames s' = total_frames s \<and> out s' = out s
         \<and> set (trackers s') \<subseteq> set (trackers s) \<union> {(name, Some t) | t. True}"
  using assms
proof (cases rule: builtin_step_cases)
  case idle
  then show ?thesis by auto
next
  case (lose t')
  have "set (AList.update name (Some t') (trackers s)) \<subseteq> insert (name, Some t') (set (trackers s))"
    by (rule set_update_subset)
  with lose assms(2) show ?thesis
    by (auto simp: names_def update_keys_present update_keys_member)
next
  case (keep t' c)
  have "set (AList.update name (Some t') (trackers s)) \<subseteq> insert (name, Some t') (set (trackers s))"
    by (rule set_update_subset)
  with keep assms(2) show ?thesis
    by (auto simp: names_def update_keys_present update_keys_member)
next
  case raised
  then show ?thesis by (auto simp: names_def)
next
  case (halted t')
  have "set (AList.update name (Some t') (trackers s)) \<subseteq> insert (name, Some t') (set (trackers s))"
    by (rule set_update_subset)
  with halted assms(2) show ?thesis
    by (auto simp: names_def update_keys_present update_keys_member)
qed

lemma builtin_step_frames:
  assumes "builtin_step env frame nm tracker s = (s', err)"
  shows "total_frames s' = total_frames s"
  using assms by (cases rule: builtin_step_cases) simp_all

lemma builtin_step_entry:
  assumes "builtin_step env frame nm tracker s = (s', err)"
    and "name \<noteq> nm \<or> nm = ''template'' \<or> map_of (lost s) nm \<noteq> Some False"
  shows "entry s' name = entry s name"
  using assms
  by (cases rule: builtin_step_cases) (auto simp: entry_def calls_of_def update_conv')

lemma builtin_step_ok:
  assumes "session_ok tmpl s" and "name \<in> set (names s)"
    and "builtin_step env frame name tracker s = (s', err)"
  shows "session_ok tmpl s'"
proof -
  note sh = builtin_step_shape [OF assms(3) assms(2)]
  have "\<forall>item \<in> set (trackers s'). fst item \<noteq> ''template'' \<longrightarrow> snd item \<noteq> None"
    using sh assms(1) by (fastforce simp: session_ok_def)
  with sh assms(1) show ?thesis by (simp add: session_ok_def)
qed

lemma template_step_ok:
  assumes "session_ok tmpl s" and "template_step env tmpl frame s = (s', err)"
  shows "session_ok tmpl s'"
  using template_step_shape [OF assms(2)] assms(1) by (simp add: session_ok_def names_def)

subsection \<open>The loop over the built-in trackers\<close>

lemma builtin_loop_Cons:
  assumes "builtin_step env frame nm tracker s = (s1, e1)"
  shows "builtin_loop env frame ((nm, tracker) # items) s =
           (if e1 = None then builtin_loop env frame items s1 else (s1, e1))"
  using assms by (cases e1) simp_all

lemma builtin_loop_entry:
  assumes "builtin_loop env frame items s = (s', err)"
    and "name \<notin> fst ` set items \<or> name = ''template'' \<or> map_of (lost s) name \<noteq> Some False"
  shows "entry s' name = entry s name"
  using assms
proof (induction items arbitrary: s)
  case Nil
  then show ?case by simp
next
  case (Cons item items)
  obtain nm tracker where item: "item = (nm, tracker)" by (cases item)
  obtain s1 e1 where s1: "builtin_step env frame nm tracker s = (s1, e1)"
    by (cases "builtin_step env frame nm tracker s")
  from Cons.prems(2) item
  have e1: "entry s1 name = entry s name"
    by (intro builtin_step_entry [OF s1]) auto
  show ?case
  proof (cases "e1 = None")
    case False
    with Cons.prems(1) item builtin_loop_Cons [OF s1, of items] have "s' = s1" by simp
    with e1 show ?thesis by simp
  next
    case True
    with Cons.prems(1) item builtin_loop_Cons [OF s1, of items]
    have rest: "builtin_loop env frame items s1 = (s', err)" by simp
    from e1 have "map_of (lost s1) name = map_of (lost s) name" by (simp add: entry_def)
    with Cons.prems(2) item
    have "name \<notin> fst ` set items \<or> name = ''template'' \<or> map_of (lost s1) name \<noteq> Some False"
      by auto
    from Cons.IH [OF rest this] e1 show ?thesis by simp
  qed
qed

lemma builtin_loop_ok:
  assumes "session_ok tmpl s" and "fst ` set items \<subseteq> set (names s)"
    and "builtin_loop env frame items s = (s', err)"
  shows "session_ok tmpl s' \<and> names s' = names s
           \<and> total_frames s' = total_frames s \<and> out s' = out s"
  using assms
proof (induction items arbitrary: s)
  case Nil
  then show ?case by simp
next
  case (Cons item items)
  obtain nm tracker where item: "item = (nm, tracker)" by (cases item)
  obtain s1 e1 where s1: "builtin_step env frame nm tracker s = (s1, e1)"
    by (cases "builtin_step env frame nm tracker s")
  from Cons.prems(2) item have nm: "nm \<in> set (names s)" by auto
  note sh = builtin_step_shape [OF s1 nm]
  have ok1: "session_ok tmpl s1" by (rule builtin_step_ok [OF Cons.prems(1) nm s1])
  show ?case
  proof (cases "e1 = None")
    case False
    with Cons.prems(3) item builtin_loop_Cons [OF s1, of items] have "s' = s1" by simp
    with ok1 sh show ?thesis by simp
  next
    case True
    with Cons.prems(3) item builtin_loop_Cons [OF s1, of items]
    have rest: "builtin_loop env frame items s1 = (s', err)" by simp
    from Cons.prems(2) sh have sub: "fst ` set items \<subseteq> set (names s1)" by simp
    from Cons.IH [OF ok1 sub rest] sh show ?thesis by simp
  qed
qed

lemma builtin_loop_calm:
  assumes "session_ok tmpl s" and "fst ` set items \<subseteq> set (names s)"
    and "\<forall>item \<in> set items. fst item \<noteq> ''template'' \<longrightarrow> snd item \<noteq> None"
    and "updates_ok env"
  shows "snd (builtin_loop env frame items s) = None"
  using assms(1,2,3)
proof (induction items arbitrary: s)
  case Nil
  then show ?case by simp
next
  case (Cons item items)
  obtain nm tracker where item: "item = (nm, tracker)" by (cases item)
  obtain s1 e1 where s1: "builtin_step env frame nm tracker s = (s1, e1)"
    by (cases "builtin_step env frame nm tracker s")
  from Cons.prems item have nm: "nm \<in> set (names s)" and tr: "nm \<noteq> ''template'' \<longrightarrow> tracker \<noteq> None"
    by auto
  from builtin_step_calm [where env = env and frame = frame, OF Cons.prems(1) nm tr assms(4)] s1
  have e1: "e1 = None" by simp
  note sh = builtin_step_shape [OF s1 nm]
  have ok1: "session_ok tmpl s1" by (rule builtin_step_ok [OF Cons.prems(1) nm s1])
  from Cons.prems(2) sh have sub: "fst ` set items \<subseteq> set (names s1)" by simp
  from Cons.prems(3) have "\<forall>item \<in> set items. fst item \<noteq> ''template'' \<longrightarrow> snd item \<noteq> None"
    by simp
  from Cons.IH [OF ok1 sub this] item e1 builtin_loop_Cons [OF s1, of items]
  show ?case by simp
qed

subsection \<open>One frame\<close>

lemma process_frame_unfold:
  assumes "template_step env tmpl frame (s\<lparr>total_frames := total_frames s + 1\<rparr>) = (s1, e1)"
  shows "process_frame env tmpl frame s =
           (if e1 = None then builtin_loop env frame (trackers s1) s1 else (s1, e1))"
  using assms by (cases e1) (simp_all add: process_frame_def)

lemma process_frame_ok:
  assumes "session_ok tmpl s" and "process_frame env tmpl frame s = (s', err)"
  shows "session_ok tmpl s' \<and> names s' = names s
           \<and> total_frames s' = total_frames s + 1 \<and> out s' = out s"
proof -
  let ?s0 = "s\<lparr>total_frames := total_frames s + 1\<rparr>"
  from assms(1) have ok0: "session_ok tmpl ?s0" by (simp add: session_ok_def names_def)
  obtain s1 e1 where s1: "template_step env tmpl frame ?s0 = (s1, e1)"
    by (cases "template_step env tmpl frame ?s0")
  note sh = template_step_shape [OF s1]
  have ok1: "session_ok tmpl s1" by (rule template_step_ok [OF ok0 s1])
  show ?thesis
  proof (cases "e1 = None")
    case False
    with assms(2) process_frame_unfold [OF s1] have "s' = s1" by simp
    with ok1 sh show ?thesis by (simp add: names_def)
  next
    case True
    with assms(2) process_frame_unfold [OF s1]
    have loop: "builtin_loop env frame (trackers s1) s1 = (s', err)" by simp
    have sub: "fst ` set (trackers s1) \<subseteq> set (names s1)" by (simp add: names_def)
    from builtin_loop_ok [OF ok1 sub loop] sh show ?thesis by (simp add: names_def)
  qed
qed

lemma process_frame_calm:
  assumes "session_ok tmpl s" and "updates_ok env"
  shows "snd (process_frame env tmpl frame s) = None"
proof -
  let ?s0 = "s\<lparr>total_frames := total_frames s + 1\<rparr>"
  from assms(1) have ok0: "session_ok tmpl ?s0" by (simp add: session_ok_def names_def)
  obtain s1 e1 where s1: "template_step env tmpl frame ?s0 = (s1, e1)"
    by (cases "template_step env tmpl frame ?s0")
  from template_step_calm [where env = env and frame = frame, OF ok0] s1
  have e1: "e1 = None" by simp
  have ok1: "session_ok tmpl s1" by (rule template_step_ok [OF ok0 s1])
  have sub: "fst ` set (trackers s1) \<subseteq> set (names s1)" by (simp add: names_def)
  from ok1 have "\<forall>item \<in> set (trackers s1). fst item \<noteq> ''template'' \<longrightarrow> snd item \<noteq> None"
    by (simp add: session_ok_def)
  from builtin_loop_calm [where env = env and frame = frame, OF ok1 sub this assms(2)]
    e1 process_frame_unfold [OF s1]
  show ?thesis by simp
qed

lemma process_frame_entry:
  assumes "process_frame env tmpl frame s = (s', err)"
    and "map_of (lost s) name \<noteq> Some False"
  shows "entry s' name = entry s name"
proof -
  let ?s0 = "s\<lparr>total_frames := total_frames s + 1\<rparr>"
  obtain s1 e1 where s1: "template_step env tmpl frame ?s0 = (s1, e1)"
    by (cases "template_step env tmpl frame ?s0")
  from assms(2) have "name \<noteq> ''template'' \<or> map_of (lost ?s0) ''template'' \<noteq> Some False"
    by auto
  from template_step_entry [OF s1 this] have e1: "entry s1 name = entry s name" by simp
  show ?thesis
  proof (cases "e1 = None")
    case False
    with assms(1) process_frame_unfold [OF s1] have "s' = s1" by simp
    with e1 show ?thesis by simp
  next
    case True
    with assms(1) process_frame_unfold [OF s1]
    have loop: "builtin_loop env frame (trackers s1) s1 = (s', err)" by simp
    from e1 assms(2) have "map_of (lost s1) name \<noteq> Some False" by (simp add: entry_def)
    then have "entry s' name = entry s1 name"
      by (intro builtin_loop_entry [OF loop]) simp
    with e1 show ?thesis by simp
  qed
qed

subsection \<open>The frame loop\<close>

lemma run_loop_Cons:
  assumes "process_frame env tmpl frame s = (s1, e1)"
  shows "run_loop env tmpl s ((frame, code) # cap) =
           (if e1 \<noteq> None then (s1, cap, e1)
            else if quit_key code then (s1, cap, None)
            else run_loop env tmpl s1 cap)"
  using assms by (cases e1) simp_all

lemma run_loop_ok:
  assumes "session_ok tmpl s" and "run_loop env tmpl s cap = (s', unread, err)"
  shows "session_ok tmpl s' \<and> names s' = names s \<and> out s' = out s
           \<and> (\<exists>n. n \<le> length cap \<and> unread = drop n cap
                  \<and> total_frames s' = total_frames s + int n
                  \<and> (err = None \<longrightarrow> n = frames_consumed cap))"
  using assms
proof (induction cap arbitrary: s)
  case Nil
  then show ?case by simp
next
  case (Cons item cap)
  obtain frame code where item: "item = (frame, code)" by (cases item)
  obtain s1 e1 where s1: "process_frame env tmpl frame s = (s1, e1)"
    by (cases "process_frame env tmpl frame s")
  note f1 = process_frame_ok [OF Cons.prems(1) s1]
  note unf = run_loop_Cons [OF s1, of code cap]
  have one: "(1::nat) \<le> length (item # cap) \<and> cap = drop 1 (item # cap)" by simp
  show ?case
  proof (cases "e1 \<noteq> None \<or> quit_key code")
    case True
    with Cons.prems(2) item unf have eq: "s' = s1" "unread = cap" "e1 = None \<longrightarrow> err = None"
      "err = None \<longrightarrow> quit_key code" by (auto split: if_splits)
    have "\<exists>n. n \<le> length (item # cap) \<and> unread = drop n (item # cap)
                  \<and> total_frames s' = total_frames s + int n
                  \<and> (err = None \<longrightarrow> n = frames_consumed (item # cap))"
      using eq f1 item by (intro exI [of _ 1]) auto
    with eq f1 show ?thesis by simp
  next
    case False
    with Cons.prems(2) item unf have rest: "run_loop env tmpl s1 cap = (s', unread, err)"
      by simp
    from f1 have ok1: "session_ok tmpl s1" by simp
    from Cons.IH [OF ok1 rest] obtain n where
      a: "session_ok tmpl s'" "names s' = names s1" "out s' = out s1"
      and n: "n \<le> length cap" "unread = drop n cap" "total_frames s' = total_frames s1 + int n"
        "err = None \<longrightarrow> n = frames_consumed cap"
      by blast
    have "\<exists>n. n \<le> length (item # cap) \<and> unread = drop n (item # cap)
                  \<and> total_frames s' = total_frames s + int n
                  \<and> (err = None \<longrightarrow> n = frames_consumed (item # cap))"
      using n f1 item False by (intro exI [of _ "Suc n"]) auto
    with a f1 show ?thesis by simp
  qed
qed

lemma run_loop_calm:
  assumes "session_ok tmpl s" and "updates_ok env"
  shows "snd (snd (run_loop env tmpl s cap)) = None"
  using assms(1)
proof (induction cap arbitrary: s)
  case Nil
  then show ?case by simp
next
  case (Cons item cap)
  obtain frame code where item: "item = (frame, code)" by (cases item)
  obtain s1 e1 where s1: "process_frame env tmpl frame s = (s1, e1)"
    by (cases "process_frame env tmpl frame s")
  from process_frame_calm [where env = env and frame = frame, OF Cons.prems assms(2)] s1
  have e1: "e1 = None" by simp
  from process_frame_ok [OF Cons.prems s1] have ok1: "session_ok tmpl s1" by simp
  from Cons.IH [OF ok1] e1 item run_loop_Cons [OF s1, of code cap] show ?case by simp
qed

lemma run_loop_entry:
  assumes "run_loop env tmpl s cap = (s', unread, err)"
    and "map_of (lost s) name \<noteq> Some False"
  shows "entry s' name = entry s name"
  using assms
proof (induction cap arbitrary: s)
  case Nil
  then show ?case by simp
next
  case (Cons item cap)
  obtain frame code where item: "item = (frame, code)" by (cases item)
  obtain s1 e1 where s1: "process_frame env tmpl frame s = (s1, e1)"
    by (cases "process_frame env tmpl frame s")
  from process_frame_entry [OF s1 Cons.prems(2)] have e1: "entry s1 name = entry s name" .
  note unf = run_loop_Cons [OF s1, of code cap]
  show ?case
  proof (cases "e1 \<noteq> None \<or> quit_key code")
    case True
    with Cons.prems(1) item unf have "s' = s1" by (auto split: if_splits)
    with e1 show ?thesis by simp
  next
    case False
    with Cons.prems(1) item unf have r: "run_loop env tmpl s1 cap = (s', unread, err)" by simp
    from e1 Cons.prems(2) have "map_of (lost s1) name \<noteq> Some False" by (simp add: entry_def)
    from Cons.IH [OF r this] e1 show ?thesis by simp
  qed
qed

lemma run_loop_append:
  assumes "run_loop env tmpl s pre = (s1, u1, e1)"
  shows "run_loop env tmpl s (pre @ post) = (s1, u1 @ post, e1)
         \<or> (e1 = None \<and> run_loop env tmpl s (pre @ post) = run_loop env tmpl s1 post)"
  using assms
proof (induction pre arbitrary: s)
  case Nil
  then show ?case by simp
next
  case (Cons item pre)
  obtain frame code where item: "item = (frame, code)" by (cases item)
  obtain s0 e0 where s0: "process_frame env tmpl frame s = (s0, e0)"
    by (cases "process_frame env tmpl frame s")
  note unf = run_loop_Cons [OF s0, of code]
  show ?case
  proof (cases "e0 \<noteq> None \<or> quit_key code")
    case True
    with Cons.prems item unf [of pre] have "s1 = s0" "u1 = pre" "e1 = e0"
      by (auto split: if_splits)
    with True item unf [of "pre @ post"] show ?thesis by auto
  next
    case False
    with Cons.prems item unf [of pre] have "run_loop env tmpl s0 pre = (s1, u1, e1)" by simp
    from Cons.IH [OF this] False item unf [of "pre @ post"] show ?thesis by simp
  qed
qed

subsection \<open>Initialization\<close>

lemma first_occurrences_seen:
  "set seen = set seen' \<Longrightarrow> first_occurrences seen xs = first_occurrences seen' xs"
proof (induction xs arbitrary: seen seen')
  case Nil
  then show ?case by simp
next
  case (Cons x xs)
  from Cons.prems have "set (x # seen) = set (x # seen')" by simp
  from Cons.IH [OF this] Cons.IH [OF Cons.prems] Cons.prems show ?case by simp
qed

lemma first_occurrences_distinct:
  "distinct (first_occurrences seen xs) \<and> set (first_occurrences seen xs) = set xs - set seen"
  by (induction xs arbitrary: seen) auto

lemma init_one_skip:
  "\<not> initializes env frame0 box m \<Longrightarrow>
     \<exists>ls. init_one env frame0 box m s = s\<lparr>out := out s @ ls\<rparr>"
proof (cases "m = ''template''")
  case True
  then have "init_one env frame0 box m s = s\<lparr>out := out s @ []\<rparr>" by (simp add: init_one_def)
  then show ?thesis by blast
next
  case False
  assume "\<not> initializes env frame0 box m"
  with False obtain e where "try_init env frame0 box m = Inl e"
    by (cases "try_init env frame0 box m") (auto simp: initializes_def)
  with False have "init_one env frame0 box m s = s\<lparr>out := out s @ [warn_line m e]\<rparr>"
    by (simp add: init_one_def)
  then show ?thesis by blast
qed

lemma init_one_add:
  assumes "initializes env frame0 box m"
  shows "\<exists>t. try_init env frame0 box m = Inr t \<and> m \<noteq> ''template'' \<and>
           init_one env frame0 box m s =
             s\<lparr>trackers := AList.update m (Some t) (trackers s),
               lost := AList.update m False (lost s),
               survival := AList.update m 0 (survival s),
               out := out s @ [info_line m]\<rparr>"
proof -
  from assms obtain t where "try_init env frame0 box m = Inr t" and "m \<noteq> ''template''"
    by (cases "try_init env frame0 box m") (auto simp: initializes_def)
  then show ?thesis by (simp add: init_one_def)
qed

lemma init_one_ok:
  assumes "session_ok tmpl s"
  shows "session_ok tmpl (init_one env frame0 box m s)"
proof (cases "initializes env frame0 box m")
  case False
  from init_one_skip [OF this] obtain ls where "init_one env frame0 box m s = s\<lparr>out := out s @ ls\<rparr>"
    by blast
  with assms show ?thesis by (simp add: session_ok_def names_def)
next
  case True
  from init_one_add [OF this] obtain t where
    eq: "init_one env frame0 box m s =
             s\<lparr>trackers := AList.update m (Some t) (trackers s),
               lost := AList.update m False (lost s),
               survival := AList.update m 0 (survival s),
               out := out s @ [info_line m]\<rparr>" by blast
  have "set (AList.update m (Some t) (trackers s)) \<subseteq> insert (m, Some t) (set (trackers s))"
    by (rule set_update_subset)
  with assms have "\<forall>item \<in> set (AList.update m (Some t) (trackers s)).
                     fst item \<noteq> ''template'' \<longrightarrow> snd item \<noteq> None"
    by (fastforce simp: session_ok_def)
  with assms show ?thesis unfolding eq
    by (simp add: session_ok_def names_def update_keys)
qed

lemma init_one_fresh:
  assumes "fresh s"
  shows "fresh (init_one env frame0 box m s)"
proof (cases "initializes env frame0 box m")
  case False
  from init_one_skip [OF this] obtain ls where "init_one env frame0 box m s = s\<lparr>out := out s @ ls\<rparr>"
    by blast
  with assms show ?thesis by (simp add: fresh_def)
next
  case True
  from init_one_add [OF this] obtain t where
    eq: "init_one env frame0 box m s =
             s\<lparr>trackers := AList.update m (Some t) (trackers s),
               lost := AList.update m False (lost s),
               survival := AList.update m 0 (survival s),
               out := out s @ [info_line m]\<rparr>" by blast
  have "set (AList.update m False (lost s)) \<subseteq> insert (m, False) (set (lost s))"
    "set (AList.update m 0 (survival s)) \<subseteq> insert (m, 0) (set (survival s))"
    by (rule set_update_subset)+
  with assms show ?thesis unfolding eq by (fastforce simp: fresh_def)
qed

lemma init_one_names:
  "names (init_one env frame0 box m s) =
     (if initializes env frame0 box m \<and> m \<notin> set (names s) then names s @ [m] else names s)"
proof (cases "initializes env frame0 box m")
  case False
  from init_one_skip [OF this] obtain ls where "init_one env frame0 box m s = s\<lparr>out := out s @ ls\<rparr>"
    by blast
  with False show ?thesis by (simp add: names_def)
next
  case True
  from init_one_add [OF this] obtain t where
    eq: "init_one env frame0 box m s =
             s\<lparr>trackers := AList.update m (Some t) (trackers s),
               lost := AList.update m False (lost s),
               survival := AList.update m 0 (survival s),
               out := out s @ [info_line m]\<rparr>" by blast
  with True show ?thesis by (simp add: names_def update_keys)
qed

lemma init_loop_ok: "session_ok tmpl s \<Longrightarrow> session_ok tmpl (init_loop env frame0 box ms s)"
  by (induction ms arbitrary: s) (simp_all add: init_one_ok)

lemma init_loop_fresh: "fresh s \<Longrightarrow> fresh (init_loop env frame0 box ms s)"
  by (induction ms arbitrary: s) (simp_all add: init_one_fresh)

lemma init_loop_names:
  "names (init_loop env frame0 box ms s) =
     names s @ first_occurrences (names s) (filter (initializes env frame0 box) ms)"
proof (induction ms arbitrary: s)
  case Nil
  then show ?case by simp
next
  case (Cons m ms)
  show ?case
  proof (cases "initializes env frame0 box m \<and> m \<notin> set (names s)")
    case True
    then have n: "names (init_one env frame0 box m s) = names s @ [m]"
      by (simp add: init_one_names)
    have "first_occurrences (names s @ [m]) (filter (initializes env frame0 box) ms)
          = first_occurrences (m # names s) (filter (initializes env frame0 box) ms)"
      by (rule first_occurrences_seen) auto
    with True n show ?thesis by (simp add: Cons.IH)
  next
    case False
    then have "names (init_one env frame0 box m s) = names s"
      by (simp add: init_one_names)
    with False show ?thesis by (auto simp add: Cons.IH)
  qed
qed

lemma init_template_facts:
  "session_ok (make_template env frame0 box methods) (init_template methods (empty_session\<lparr>out := ls\<rparr>))"
  "fresh (init_template methods (empty_session\<lparr>out := ls\<rparr>))"
  "names (init_template methods (empty_session\<lparr>out := ls\<rparr>))
     = (if ''template'' \<in> set methods then [''template''] else [])"
  "out (init_template methods (empty_session\<lparr>out := ls\<rparr>)) = ls"
  by (auto simp: session_ok_def fresh_def names_def init_template_def empty_session_def
        make_template_def split: prod.splits)

lemma init_session_ok:
  "session_ok (make_template env frame0 box methods) (init_session env frame0 box methods)"
  unfolding init_session_def by (intro init_loop_ok init_template_facts)

lemma init_session_fresh: "fresh (init_session env frame0 box methods)"
  unfolding init_session_def by (intro init_loop_fresh init_template_facts)

lemma first_occurrences_append:
  "first_occurrences seen (xs @ ys) = first_occurrences seen xs @ first_occurrences (xs @ seen) ys"
proof (induction xs arbitrary: seen)
  case Nil
  then show ?case by simp
next
  case (Cons x xs)
  have "first_occurrences (xs @ x # seen) ys = first_occurrences (x # xs @ seen) ys"
    by (rule first_occurrences_seen) auto
  moreover have "x \<in> set seen \<Longrightarrow> first_occurrences (xs @ seen) ys = first_occurrences (x # xs @ seen) ys"
    by (rule first_occurrences_seen) auto
  ultimately show ?case by (simp add: Cons.IH)
qed

lemma init_session_names:
  "names (init_session env frame0 box methods) = init_order env frame0 box methods"
  unfolding init_session_def init_order_def
  by (simp add: init_loop_names init_template_facts first_occurrences_append)

lemma map_of_keys_eq:
  assumes "map fst al = map fst bl"
  shows "(map_of al k = None) = (map_of bl k = None)"
proof -
  have "fst ` set al = fst ` set bl" using assms by (metis set_map)
  then show ?thesis by (simp add: map_of_eq_None_iff)
qed

lemma fresh_entry:
  assumes "fresh s" and "name \<in> set (map fst (lost s))" and "map fst (survival s) = map fst (lost s)"
  shows "map_of (lost s) name = Some False \<and> map_of (survival s) name = Some 0
         \<and> calls_of name s = []"
proof -
  from assms(2) obtain l where l: "map_of (lost s) name = Some l" using map_of_in_keys by metis
  from assms(2,3) obtain c where c: "map_of (survival s) name = Some c"
    using map_of_in_keys by metis
  from l have "(name, l) \<in> set (lost s)" by (rule map_of_SomeD)
  with assms(1) have "l = False" by (fastforce simp: fresh_def)
  moreover from c have "(name, c) \<in> set (survival s)" by (rule map_of_SomeD)
  with assms(1) have "c = 0" by (fastforce simp: fresh_def)
  moreover from assms(1) have "calls_of name s = []" by (simp add: fresh_def calls_of_def)
  ultimately show ?thesis using l c by simp
qed

lemma init_one_out_grows: "set (out s) \<subseteq> set (out (init_one env frame0 box m s))"
  by (auto simp: init_one_def split: sum.splits)

lemma init_loop_out_grows: "set (out s) \<subseteq> set (out (init_loop env frame0 box ms s))"
proof (induction ms arbitrary: s)
  case Nil
  then show ?case by simp
next
  case (Cons m ms)
  from init_one_out_grows [of s env frame0 box m] Cons.IH [of "init_one env frame0 box m s"]
  show ?case by auto
qed

lemma init_loop_warns:
  assumes "m \<in> set ms" and "m \<noteq> ''template''" and "try_init env frame0 box m = Inl e"
  shows "warn_line m e \<in> set (out (init_loop env frame0 box ms s))"
  using assms(1)
proof (induction ms arbitrary: s)
  case Nil
  then show ?case by simp
next
  case (Cons m' ms)
  show ?case
  proof (cases "m' = m")
    case True
    with assms(2,3) have "warn_line m e \<in> set (out (init_one env frame0 box m' s))"
      by (simp add: init_one_def)
    with init_loop_out_grows [of "init_one env frame0 box m' s" env frame0 box ms]
    show ?thesis by auto
  next
    case False
    with Cons.prems have "m \<in> set ms" by simp
    from Cons.IH [OF this] show ?thesis by simp
  qed
qed

lemma init_loop_all_fail:
  assumes "\<forall>m \<in> set ms. m \<noteq> ''template'' \<and> isl (try_init env frame0 box m)"
  shows "init_loop env frame0 box ms s =
           s\<lparr>out := out s @ map (\<lambda>m. warn_line m (projl (try_init env frame0 box m))) ms\<rparr>"
  using assms
proof (induction ms arbitrary: s)
  case Nil
  then show ?case by simp
next
  case (Cons m ms)
  from Cons.prems have nt: "m \<noteq> ''template''" and "isl (try_init env frame0 box m)" by simp_all
  then obtain e where e: "try_init env frame0 box m = Inl e"
    by (cases "try_init env frame0 box m") simp_all
  with nt have one: "init_one env frame0 box m s = s\<lparr>out := out s @ [warn_line m e]\<rparr>"
    by (simp add: init_one_def)
  from Cons.prems have "\<forall>m \<in> set ms. m \<noteq> ''template'' \<and> isl (try_init env frame0 box m)" by simp
  from Cons.IH [OF this] one e show ?case by simp
qed

lemma init_one_value:
  assumes "m \<noteq> ''template''" and "try_init env frame0 box m = Inr t"
    and "m' = m \<or> map_of (trackers s) m = Some (Some t)"
  shows "map_of (trackers (init_one env frame0 box m' s)) m = Some (Some t)"
proof (cases "m' = m")
  case True
  with assms(1,2) show ?thesis by (simp add: init_one_def update_conv')
next
  case False
  with assms(3) show ?thesis
    by (auto simp: init_one_def update_conv' split: sum.splits)
qed

lemma init_loop_value:
  assumes "m \<noteq> ''template''" and "try_init env frame0 box m = Inr t"
    and "m \<in> set ms \<or> map_of (trackers s) m = Some (Some t)"
  shows "map_of (trackers (init_loop env frame0 box ms s)) m = Some (Some t)"
  using assms(3)
proof (induction ms arbitrary: s)
  case Nil
  then show ?case by simp
next
  case (Cons m' ms)
  show ?case
  proof (cases "m' = m \<or> map_of (trackers s) m = Some (Some t)")
    case True
    from init_one_value [OF assms(1,2) True]
    have "map_of (trackers (init_one env frame0 box m' s)) m = Some (Some t)" .
    then show ?thesis by (simp add: Cons.IH)
  next
    case False
    with Cons.prems have "m \<in> set ms" by auto
    then show ?thesis by (simp add: Cons.IH)
  qed
qed

lemma init_order_set:
  "set (init_order env frame0 box methods)
     = {m \<in> set methods. m = ''template'' \<or> initializes env frame0 box m}"
  by (auto simp: init_order_def first_occurrences_distinct)

lemma init_order_distinct: "distinct (init_order env frame0 box methods)"
  by (simp add: init_order_def first_occurrences_distinct)

lemma init_session_keys:
  "map fst (trackers (init_session env frame0 box methods)) = init_order env frame0 box methods"
  "map fst (lost (init_session env frame0 box methods)) = init_order env frame0 box methods"
  "map fst (survival (init_session env frame0 box methods)) = init_order env frame0 box methods"
  using init_session_ok [of env frame0 box methods] init_session_names [of env frame0 box methods]
  by (simp_all add: session_ok_def names_def)

lemma summary_line_fun:
  "summary_line tot =
     (\<lambda>(name, count).
        ljust 9 name @ '': survived '' @ str_int count @ '' / '' @ str_int tot @ '' frames'')"
  by (simp add: fun_eq_iff summary_line_def)

subsection \<open>Survival counts\<close>

lemma template_step_survival:
  assumes "template_step env tmpl frame s = (s', err)" and "map_of (survival s) name = Some c"
  shows "map_of (survival s') name = Some c
         \<or> (name = ''template'' \<and> map_of (survival s') name = Some (c + 1))"
  using assms by (cases rule: template_step_cases) (auto simp: update_conv')

lemma builtin_step_survival:
  assumes "builtin_step env frame nm tracker s = (s', err)" and "map_of (survival s) name = Some c"
  shows "map_of (survival s') name = Some c
         \<or> (name = nm \<and> nm \<noteq> ''template'' \<and> map_of (survival s') name = Some (c + 1))"
  using assms by (cases rule: builtin_step_cases) (auto simp: update_conv')

lemma builtin_loop_survival:
  assumes "builtin_loop env frame items s = (s', err)" and "distinct (map fst items)"
    and "map_of (survival s) name = Some c"
  shows "map_of (survival s') name = Some c
         \<or> (name \<in> fst ` set items \<and> name \<noteq> ''template''
            \<and> map_of (survival s') name = Some (c + 1))"
  using assms
proof (induction items arbitrary: s c)
  case Nil
  then show ?case by simp
next
  case (Cons item items)
  obtain nm tracker where item: "item = (nm, tracker)" by (cases item)
  obtain s1 e1 where s1: "builtin_step env frame nm tracker s = (s1, e1)"
    by (cases "builtin_step env frame nm tracker s")
  from Cons.prems(2) item have d: "distinct (map fst items)" and new: "nm \<notin> fst ` set items"
    by auto
  note step = builtin_step_survival [OF s1 Cons.prems(3)]
  show ?case
  proof (cases "e1 = None")
    case False
    with Cons.prems(1) item builtin_loop_Cons [OF s1, of items] have "s' = s1" by simp
    with step item show ?thesis by auto
  next
    case True
    with Cons.prems(1) item builtin_loop_Cons [OF s1, of items]
    have rest: "builtin_loop env frame items s1 = (s', err)" by simp
    from step
    consider (same) "map_of (survival s1) name = Some c"
      | (up) "name = nm" "nm \<noteq> ''template''" "map_of (survival s1) name = Some (c + 1)"
      by blast
    then show ?thesis
    proof cases
      case same
      from Cons.IH [OF rest d same] item show ?thesis by auto
    next
      case up
      from Cons.IH [OF rest d up(3)] up new item show ?thesis by auto
    qed
  qed
qed

lemma process_frame_survival:
  assumes "process_frame env tmpl frame s = (s', err)" and "distinct (names s)"
    and "map_of (survival s) name = Some c"
  shows "map_of (survival s') name = Some c
         \<or> (map_of (survival s') name = Some (c + 1) \<and> map_of (lost s) name = Some False)"
proof -
  let ?s0 = "s\<lparr>total_frames := total_frames s + 1\<rparr>"
  obtain s1 e1 where s1: "template_step env tmpl frame ?s0 = (s1, e1)"
    by (cases "template_step env tmpl frame ?s0")
  from template_step_shape [OF s1] assms(2) have d: "distinct (map fst (trackers s1))"
    by (simp add: names_def)
  from assms(3) have c0: "map_of (survival ?s0) name = Some c" by simp
  note first = template_step_survival [OF s1 c0]
  have step: "map_of (survival s') name = Some c \<or> map_of (survival s') name = Some (c + 1)"
  proof (cases "e1 = None")
    case False
    with assms(1) process_frame_unfold [OF s1] have "s' = s1" by simp
    with first show ?thesis by auto
  next
    case True
    with assms(1) process_frame_unfold [OF s1]
    have loop: "builtin_loop env frame (trackers s1) s1 = (s', err)" by simp
    from first
    consider (same) "map_of (survival s1) name = Some c"
      | (up) "name = ''template''" "map_of (survival s1) name = Some (c + 1)"
      by blast
    then show ?thesis
    proof cases
      case same
      from builtin_loop_survival [OF loop d same] show ?thesis by auto
    next
      case up
      from builtin_loop_survival [OF loop d up(2)] up(1) show ?thesis by auto
    qed
  qed
  show ?thesis
  proof (cases "map_of (lost s) name = Some False")
    case True
    with step show ?thesis by simp
  next
    case False
    from process_frame_entry [OF assms(1) False] assms(3)
    have "map_of (survival s') name = Some c" by (simp add: entry_def)
    then show ?thesis by simp
  qed
qed

lemma process_frame_bounded:
  assumes "session_ok tmpl s" and "process_frame env tmpl frame s = (s', err)"
    and "\<forall>name c. map_of (survival s) name = Some c \<longrightarrow> 0 \<le> c \<and> c \<le> total_frames s"
  shows "\<forall>name c. map_of (survival s') name = Some c \<longrightarrow> 0 \<le> c \<and> c \<le> total_frames s'"
proof (intro allI impI)
  fix name c'
  assume c': "map_of (survival s') name = Some c'"
  from process_frame_ok [OF assms(1,2)]
  have ok': "session_ok tmpl s'" and n: "names s' = names s"
    and t: "total_frames s' = total_frames s + 1" by auto
  from assms(1) ok' n have "map fst (survival s') = map fst (survival s)"
    by (simp add: session_ok_def)
  with c' have "map_of (survival s) name \<noteq> None"
    using map_of_keys_eq [of "survival s'" "survival s" name] by simp
  then obtain c where c: "map_of (survival s) name = Some c" by auto
  from assms(1) have "distinct (names s)" by (simp add: session_ok_def)
  from process_frame_survival [OF assms(2) this c] c' have "c' = c \<or> c' = c + 1" by auto
  moreover from assms(3) c have "0 \<le> c \<and> c \<le> total_frames s" by blast
  ultimately show "0 \<le> c' \<and> c' \<le> total_frames s'" using t by auto
qed

lemma run_loop_bounded:
  assumes "session_ok tmpl s" and "run_loop env tmpl s cap = (s', unread, err)"
    and "\<forall>name c. map_of (survival s) name = Some c \<longrightarrow> 0 \<le> c \<and> c \<le> total_frames s"
  shows "\<forall>name c. map_of (survival s') name = Some c \<longrightarrow> 0 \<le> c \<and> c \<le> total_frames s'"
  using assms
proof (induction cap arbitrary: s)
  case Nil
  then show ?case by simp
next
  case (Cons item cap)
  obtain frame code where item: "item = (frame, code)" by (cases item)
  obtain s1 e1 where s1: "process_frame env tmpl frame s = (s1, e1)"
    by (cases "process_frame env tmpl frame s")
  from process_frame_ok [OF Cons.prems(1) s1] have ok1: "session_ok tmpl s1" by simp
  note b1 = process_frame_bounded [OF Cons.prems(1) s1 Cons.prems(3)]
  note unf = run_loop_Cons [OF s1, of code cap]
  show ?case
  proof (cases "e1 \<noteq> None \<or> quit_key code")
    case True
    with Cons.prems(2) item unf have "s' = s1" by (auto split: if_splits)
    with b1 show ?thesis by simp
  next
    case False
    with Cons.prems(2) item unf have "run_loop env tmpl s1 cap = (s', unread, err)" by simp
    from Cons.IH [OF ok1 this b1] show ?thesis .
  qed
qed

subsection \<open>Sessions\<close>

lemma session_start_ok:
  "session_ok (make_template env frame0 box methods)
     ((init_session env frame0 box methods)\<lparr>total_frames := 0\<rparr>)"
  using init_session_ok [of env frame0 box methods] by (simp add: session_ok_def names_def)

lemma session_after_facts:
  assumes "session_after env frame0 box methods cap = (s, unread, err)"
  shows "session_ok (make_template env frame0 box methods) s
       \<and> names s = init_order env frame0 box methods
       \<and> out s = out (init_session env frame0 box methods)
       \<and> (\<exists>n. n \<le> length cap \<and> unread = drop n cap \<and> total_frames s = int n
              \<and> (err = None \<longrightarrow> n = frames_consumed cap))"
proof -
  let ?s0 = "(init_session env frame0 box methods)\<lparr>total_frames := 0\<rparr>"
  from assms have run: "run_loop env (make_template env frame0 box methods) ?s0 cap
                          = (s, unread, err)"
    by (simp add: session_after_def)
  have "names ?s0 = init_order env frame0 box methods"
    using init_session_names [of env frame0 box methods] by (simp add: names_def)
  with run_loop_ok [OF session_start_ok run] show ?thesis by simp
qed

lemma session_after_ok:
  assumes "session_after env frame0 box methods cap = (s, unread, err)"
  shows "session_ok (make_template env frame0 box methods) s"
  using session_after_facts [OF assms] by simp

lemma session_after_calm:
  assumes "updates_ok env"
  shows "snd (snd (session_after env frame0 box methods cap)) = None"
  unfolding session_after_def by (rule run_loop_calm [OF session_start_ok assms])

lemma session_after_normal:
  assumes "session_after env frame0 box methods cap = (s, unread, None)"
  shows "unread = drop (frames_consumed cap) cap \<and> total_frames s = int (frames_consumed cap)"
  using session_after_facts [OF assms] by auto

subsection \<open>The exact effect of a frame on one entry\<close>

lemma toward_zero_nonpositive: "toward_zero v \<le> 0 \<longleftrightarrow> v < 1"
proof (cases "0 \<le> v")
  case True
  then show ?thesis by (simp add: toward_zero_def floor_le_iff)
next
  case False
  then show ?thesis by (simp add: toward_zero_def ceiling_le_iff)
qed

text \<open>The step of an active entry whose update answers with failure or with a finite box.\<close>

lemma builtin_step_answer:
  assumes "name \<noteq> ''template''" and "map_of (lost s) name = Some False"
    and "map_of (survival s) name = Some c"
    and "tracker_update env t frame = Inr (t', ok, bbox)"
    and "\<not> ok \<or> bbox = (Finite x, Finite y, Finite w, Finite h)"
  shows "builtin_step env frame name (Some t) s =
           (if ok \<and> 0 < toward_zero w \<and> 0 < toward_zero h
            then s\<lparr>trackers := AList.update name (Some t') (trackers s),
                   calls := calls s @ [UpdateCall name (total_frames s)],
                   survival := AList.update name (c + 1) (survival s)\<rparr>
            else s\<lparr>trackers := AList.update name (Some t') (trackers s),
                   calls := calls s @ [UpdateCall name (total_frames s)],
                   lost := AList.update name True (lost s)\<rparr>,
            None)"
proof (cases ok)
  case False
  with assms(4) have "tracker_update env t frame = Inr (t', False, bbox)" by simp
  from builtin_step_failed [OF assms(1,2) this] False show ?thesis by simp
next
  case True
  with assms(4) have up: "tracker_update env t frame = Inr (t', True, bbox)" by simp
  from True assms(5) have b: "bbox = (Finite x, Finite y, Finite w, Finite h)" by simp
  have ib: "int_box bbox = Inr (toward_zero x, toward_zero y, toward_zero w, toward_zero h)"
    unfolding b by (rule int_box_finite)
  show ?thesis
  proof (cases "toward_zero w \<le> 0 \<or> toward_zero h \<le> 0")
    case degenerate: True
    from builtin_step_degenerate [OF assms(1,2) up ib degenerate] degenerate True
    show ?thesis by auto
  next
    case False
    then have pos: "0 < toward_zero w" "0 < toward_zero h" by auto
    from builtin_step_tracked [OF assms(1,2) up ib pos] assms(3) True pos
    show ?thesis by simp
  qed
qed

lemma builtin_loop_at:
  assumes "builtin_loop env frame items s = (s', err)" and "distinct (map fst items)"
    and "(name, Some t) \<in> set items" and "name \<noteq> ''template''"
    and "map_of (lost s) name = Some False" and "map_of (survival s) name = Some c"
    and "tracker_update env t frame = Inr (t', ok, bbox)"
    and "\<not> ok \<or> bbox = (Finite x, Finite y, Finite w, Finite h)"
  shows "entry s' name =
           (Some (Some t'),
            Some (\<not> (ok \<and> 0 < toward_zero w \<and> 0 < toward_zero h)),
            Some (if ok \<and> 0 < toward_zero w \<and> 0 < toward_zero h then c + 1 else c),
            calls_of name s @ [UpdateCall name (total_frames s)])
         \<or> (err \<noteq> None \<and> entry s' name = entry s name)"
  using assms(1,2,3,5,6)
proof (induction items arbitrary: s)
  case Nil
  then show ?case by simp
next
  case (Cons item items)
  obtain nm tracker where item: "item = (nm, tracker)" by (cases item)
  obtain s1 e1 where s1: "builtin_step env frame nm tracker s = (s1, e1)"
    by (cases "builtin_step env frame nm tracker s")
  from Cons.prems(2) item have d: "distinct (map fst items)" and new: "nm \<notin> fst ` set items"
    by auto
  note unf = builtin_loop_Cons [OF s1, of items]
  show ?case
  proof (cases "nm = name")
    case True
    with Cons.prems(3) item new have tr: "tracker = Some t" by force
    note act = builtin_step_answer [OF assms(4) Cons.prems(4) Cons.prems(5) assms(7) assms(8)]
    from s1 True tr act Cons.prems(4,5)
    have e1: "e1 = None" and st: "entry s1 name =
           (Some (Some t'),
            Some (\<not> (ok \<and> 0 < toward_zero w \<and> 0 < toward_zero h)),
            Some (if ok \<and> 0 < toward_zero w \<and> 0 < toward_zero h then c + 1 else c),
            calls_of name s @ [UpdateCall name (total_frames s)])"
      by (auto simp: entry_def calls_of_def update_conv')
    from e1 Cons.prems(1) item unf have rest: "builtin_loop env frame items s1 = (s', err)"
      by simp
    from True new have "name \<notin> fst ` set items" by simp
    then have "entry s' name = entry s1 name"
      by (intro builtin_loop_entry [OF rest]) simp
    with st show ?thesis by simp
  next
    case False
    then have same: "entry s1 name = entry s name"
      by (intro builtin_step_entry [OF s1]) simp
    show ?thesis
    proof (cases "e1 = None")
      case raised: False
      with Cons.prems(1) item unf have "s' = s1" "err = e1" by simp_all
      with raised same show ?thesis by simp
    next
      case True
      with Cons.prems(1) item unf have rest: "builtin_loop env frame items s1 = (s', err)"
        by simp
      from same Cons.prems(4,5)
      have l1: "map_of (lost s1) name = Some False" and c1: "map_of (survival s1) name = Some c"
        and k1: "calls_of name s1 = calls_of name s"
        by (simp_all add: entry_def)
      from Cons.prems(3) item False have m: "(name, Some t) \<in> set items" by auto
      from Cons.IH [OF rest d m l1 c1] k1 same builtin_step_frames [OF s1] show ?thesis by simp
    qed
  qed
qed

lemma process_frame_template:
  assumes "session_ok (Some template) s" and "map_of (lost s) ''template'' = Some False"
    and "process_frame env (Some template) frame s = (s', err)"
  shows "\<exists>c. map_of (survival s) ''template'' = Some c
           \<and> entry s' ''template'' =
               (map_of (trackers s) ''template'',
                Some (fst (match_max env (cvtColor env frame) template) < threshold),
                Some (if fst (match_max env (cvtColor env frame) template) < threshold
                      then c else c + 1),
                calls_of ''template'' s @ [MatchCall (total_frames s + 1)])"
proof -
  let ?s0 = "s\<lparr>total_frames := total_frames s + 1\<rparr>"
  from assms(1) have "''template'' \<in> set (map fst (survival s))" by (simp add: session_ok_def)
  then obtain c where c: "map_of (survival s) ''template'' = Some c"
    using map_of_in_keys by metis
  from assms(2) c have l0: "map_of (lost ?s0) ''template'' = Some False"
    and c0: "map_of (survival ?s0) ''template'' = Some c" by simp_all
  obtain s1 e1 where s1: "template_step env (Some template) frame ?s0 = (s1, e1)"
    by (cases "template_step env (Some template) frame ?s0")
  from s1 have e1: "e1 = None" and st: "entry s1 ''template'' =
               (map_of (trackers s) ''template'',
                Some (fst (match_max env (cvtColor env frame) template) < threshold),
                Some (if fst (match_max env (cvtColor env frame) template) < threshold
                      then c else c + 1),
                calls_of ''template'' s @ [MatchCall (total_frames s + 1)])"
    unfolding template_step_active [OF l0 c0]
    using assms(2) c by (auto simp: entry_def calls_of_def update_conv')
  from e1 assms(3) process_frame_unfold [OF s1]
  have loop: "builtin_loop env frame (trackers s1) s1 = (s', err)" by simp
  have "entry s' ''template'' = entry s1 ''template''"
    by (intro builtin_loop_entry [OF loop]) simp
  with st c show ?thesis by simp
qed

lemma process_frame_builtin:
  assumes "session_ok tmpl s" and "name \<noteq> ''template''"
    and "map_of (trackers s) name = Some (Some t)" and "map_of (lost s) name = Some False"
    and "tracker_update env t frame = Inr (t', ok, bbox)"
    and "\<not> ok \<or> bbox = (Finite x, Finite y, Finite w, Finite h)"
    and "process_frame env tmpl frame s = (s', err)"
  shows "\<exists>c. map_of (survival s) name = Some c
           \<and> (entry s' name =
                 (Some (Some t'),
                  Some (\<not> (ok \<and> 0 < toward_zero w \<and> 0 < toward_zero h)),
                  Some (if ok \<and> 0 < toward_zero w \<and> 0 < toward_zero h then c + 1 else c),
                  calls_of name s @ [UpdateCall name (total_frames s + 1)])
               \<or> (err \<noteq> None \<and> entry s' name = entry s name))"
proof -
  let ?s0 = "s\<lparr>total_frames := total_frames s + 1\<rparr>"
  obtain s1 e1 where s1: "template_step env tmpl frame ?s0 = (s1, e1)"
    by (cases "template_step env tmpl frame ?s0")
  note sh = template_step_shape [OF s1]
  from assms(4) have "(name, False) \<in> set (lost s)" by (rule map_of_SomeD)
  then have "name \<in> set (map fst (lost s))" by force
  with assms(1) have "name \<in> set (map fst (survival s))" by (simp add: session_ok_def)
  then obtain c where c: "map_of (survival s) name = Some c"
    using map_of_in_keys by metis
  from assms(2) have same: "entry s1 name = entry ?s0 name"
    by (intro template_step_entry [OF s1]) simp
  show ?thesis
  proof (cases "e1 = None")
    case False
    with assms(7) process_frame_unfold [OF s1] have "s' = s1" "err = e1" by simp_all
    with False same c show ?thesis by simp
  next
    case True
    with assms(7) process_frame_unfold [OF s1]
    have loop: "builtin_loop env frame (trackers s1) s1 = (s', err)" by simp
    from same assms(3,4) c have l1: "map_of (lost s1) name = Some False"
      and c1: "map_of (survival s1) name = Some c"
      and k1: "calls_of name s1 = calls_of name s"
      by (simp_all add: entry_def calls_of_def)
    from assms(1) sh have d: "distinct (map fst (trackers s1))"
      by (simp add: session_ok_def names_def)
    from assms(3) sh have m: "(name, Some t) \<in> set (trackers s1)"
      by (simp add: map_of_SomeD)
    from builtin_loop_at [OF loop d m assms(2) l1 c1 assms(5,6)] k1 sh same c
    show ?thesis by simp
  qed
qed

lemma template_frame_active:
  assumes "session_ok (Some template) s" and "map_of (lost s) ''template'' = Some False"
    and "map_of (survival s) ''template'' = Some c"
    and "process_frame env (Some template) frame s = (s', err)"
  shows "session_ok (Some template) s' \<and> total_frames s' = total_frames s + 1
           \<and> map_of (lost s') ''template''
               = Some (fst (match_max env (cvtColor env frame) template) < threshold)
           \<and> map_of (survival s') ''template''
               = Some (if fst (match_max env (cvtColor env frame) template) < threshold
                       then c else c + 1)
           \<and> calls_of ''template'' s'
               = calls_of ''template'' s @ [MatchCall (total_frames s + 1)]"
proof -
  note f = process_frame_ok [OF assms(1,4)]
  from process_frame_template [OF assms(1,2,4)] assms(3)
  have "entry s' ''template'' =
               (map_of (trackers s) ''template'',
                Some (fst (match_max env (cvtColor env frame) template) < threshold),
                Some (if fst (match_max env (cvtColor env frame) template) < threshold
                      then c else c + 1),
                calls_of ''template'' s @ [MatchCall (total_frames s + 1)])"
    by auto
  with f show ?thesis by (simp add: entry_def)
qed

lemma frame_inactive:
  assumes "session_ok tmpl s" and "map_of (lost s) name = Some True"
    and "process_frame env tmpl frame s = (s', err)"
  shows "session_ok tmpl s' \<and> total_frames s' = total_frames s + 1
           \<and> entry s' name = entry s name"
proof -
  from assms(2) have "map_of (lost s) name \<noteq> Some False" by simp
  from process_frame_entry [OF assms(3) this] process_frame_ok [OF assms(1,3)]
  show ?thesis by simp
qed

subsection \<open>The whole run\<close>

lemma run_tracking_reaches_loop:
  assumes "isOpened wd" and "first_frame wd = Some frame0" and "selectROI wd = (x, y, w, h)"
    and "w \<noteq> 0" and "h \<noteq> 0" and "init_order env frame0 (x, y, w, h) methods \<noteq> []"
    and "session_after env frame0 (x, y, w, h) methods (stream wd) = (s, unread, err)"
  shows "run_tracking env wd video_path methods =
           (case err of
              None \<Rightarrow> Inr (Finished (s\<lparr>out := out s @ summary s\<rparr>) unread)
            | Some e \<Rightarrow> Inl e)"
proof -
  from assms(6) have "trackers (init_session env frame0 (x, y, w, h) methods) \<noteq> []"
    using init_session_keys(1) [of env frame0 "(x, y, w, h)" methods] by auto
  with assms(1-5,7) show ?thesis
    by (cases err) (simp_all add: run_tracking_def session_after_def Let_def)
qed

lemma run_tracking_finished:
  assumes "run_tracking env wd video_path methods = Inr (Finished s unread)"
  shows "\<exists>frame0 x y w h s0.
           isOpened wd \<and> first_frame wd = Some frame0 \<and> selectROI wd = (x, y, w, h)
           \<and> w \<noteq> 0 \<and> h \<noteq> 0
           \<and> session_after env frame0 (x, y, w, h) methods (stream wd) = (s0, unread, None)
           \<and> s = s0\<lparr>out := out s0 @ summary s0\<rparr>"
proof -
  from assms have op: "isOpened wd"
    by (cases "isOpened wd") (simp_all add: run_tracking_def)
  from assms op obtain frame0 where f0: "first_frame wd = Some frame0"
    by (cases "first_frame wd") (simp_all add: run_tracking_def)
  obtain x y w h where roi: "selectROI wd = (x, y, w, h)"
    by (cases "selectROI wd") auto
  from assms op f0 roi have nz: "w \<noteq> 0 \<and> h \<noteq> 0"
    by (cases "w = 0 \<or> h = 0") (simp_all add: run_tracking_def)
  from assms op f0 roi nz
  have ne: "trackers (init_session env frame0 (x, y, w, h) methods) \<noteq> []"
    by (cases "trackers (init_session env frame0 (x, y, w, h) methods) = []")
       (simp_all add: run_tracking_def Let_def)
  obtain s0 u0 e0 where
    sa: "session_after env frame0 (x, y, w, h) methods (stream wd) = (s0, u0, e0)"
    by (cases "session_after env frame0 (x, y, w, h) methods (stream wd)") auto
  from ne have io: "init_order env frame0 (x, y, w, h) methods \<noteq> []"
    using init_session_keys(1) [of env frame0 "(x, y, w, h)" methods] by auto
  from run_tracking_reaches_loop [OF op f0 roi _ _ io sa, of video_path] nz assms
  have "e0 = None \<and> s = s0\<lparr>out := out s0 @ summary s0\<rparr> \<and> unread = u0"
    by (cases e0) simp_all
  with op f0 roi nz sa show ?thesis by blast
qed

subsection \<open>A frame whose update raises\<close>

text \<open>The step of an active entry whose update raises, or answers success with a box that
  holds a NaN or an infinity.\<close>

lemma builtin_step_raises:
  assumes "name \<noteq> ''template''" and "map_of (lost s) name = Some False"
    and "(\<exists>e. tracker_update env t frame = Inl e)
         \<or> (\<exists>t' bbox. tracker_update env t frame = Inr (t', True, bbox) \<and> \<not> finite_box bbox)"
  shows "\<exists>s1 e. builtin_step env frame name (Some t) s = (s1, Some e)
           \<and> lost s1 = lost s \<and> survival s1 = survival s"
  using assms(3)
proof
  assume "\<exists>e. tracker_update env t frame = Inl e"
  then obtain e where "tracker_update env t frame = Inl e" ..
  from builtin_step_raised [OF assms(1,2) this] show ?thesis by simp
next
  assume "\<exists>t' bbox. tracker_update env t frame = Inr (t', True, bbox) \<and> \<not> finite_box bbox"
  then obtain t' bbox where up: "tracker_update env t frame = Inr (t', True, bbox)"
    and nf: "\<not> finite_box bbox" by auto
  from nf int_box_raises [of bbox] obtain e where "int_box bbox = Inl e" by auto
  from builtin_step_halted [OF assms(1,2) up this] show ?thesis by simp
qed

lemma builtin_loop_raises:
  assumes "builtin_loop env frame items s = (s', err)" and "distinct (map fst items)"
    and "(name, Some t) \<in> set items" and "name \<noteq> ''template''"
    and "map_of (lost s) name = Some False"
    and "(\<exists>e. tracker_update env t frame = Inl e)
         \<or> (\<exists>t' bbox. tracker_update env t frame = Inr (t', True, bbox) \<and> \<not> finite_box bbox)"
  shows "err \<noteq> None \<and> map_of (lost s') name = Some False
           \<and> map_of (survival s') name = map_of (survival s) name"
  using assms(1,2,3,5)
proof (induction items arbitrary: s)
  case Nil
  then show ?case by simp
next
  case (Cons item items)
  obtain nm tracker where item: "item = (nm, tracker)" by (cases item)
  obtain s1 e1 where s1: "builtin_step env frame nm tracker s = (s1, e1)"
    by (cases "builtin_step env frame nm tracker s")
  from Cons.prems(2) item have d: "distinct (map fst items)" and new: "nm \<notin> fst ` set items"
    by auto
  note unf = builtin_loop_Cons [OF s1, of items]
  show ?case
  proof (cases "nm = name")
    case True
    with Cons.prems(3) item new have tr: "tracker = Some t" by force
    from builtin_step_raises [OF assms(4) Cons.prems(4) assms(6)] s1 True tr
    obtain e where e1: "e1 = Some e" and same: "lost s1 = lost s" "survival s1 = survival s"
      by auto
    from e1 Cons.prems(1) item unf have "s' = s1" "err = e1" by simp_all
    with e1 same Cons.prems(4) show ?thesis by simp
  next
    case False
    then have same: "entry s1 name = entry s name"
      by (intro builtin_step_entry [OF s1]) simp
    then have l1: "map_of (lost s1) name = Some False"
      and c1: "map_of (survival s1) name = map_of (survival s) name"
      using Cons.prems(4) by (simp_all add: entry_def)
    show ?thesis
    proof (cases "e1 = None")
      case raised: False
      with Cons.prems(1) item unf have "s' = s1" "err = e1" by simp_all
      with raised l1 c1 show ?thesis by simp
    next
      case True
      with Cons.prems(1) item unf have rest: "builtin_loop env frame items s1 = (s', err)"
        by simp
      from Cons.prems(3) item False have m: "(name, Some t) \<in> set items" by auto
      from Cons.IH [OF rest d m l1] c1 show ?thesis by simp
    qed
  qed
qed

lemma process_frame_raises:
  assumes "session_ok tmpl s" and "name \<noteq> ''template''"
    and "map_of (trackers s) name = Some (Some t)" and "map_of (lost s) name = Some False"
    and "(\<exists>e. tracker_update env t frame = Inl e)
         \<or> (\<exists>t' bbox. tracker_update env t frame = Inr (t', True, bbox) \<and> \<not> finite_box bbox)"
    and "process_frame env tmpl frame s = (s', err)"
  shows "err \<noteq> None \<and> map_of (lost s') name = Some False
           \<and> map_of (survival s') name = map_of (survival s) name"
proof -
  let ?s0 = "s\<lparr>total_frames := total_frames s + 1\<rparr>"
  obtain s1 e1 where s1: "template_step env tmpl frame ?s0 = (s1, e1)"
    by (cases "template_step env tmpl frame ?s0")
  note sh = template_step_shape [OF s1]
  from assms(1) have ok0: "session_ok tmpl ?s0" by (simp add: session_ok_def names_def)
  from template_step_calm [OF ok0, of env frame] s1 have e1: "e1 = None" by simp
  from assms(2) have same: "entry s1 name = entry ?s0 name"
    by (intro template_step_entry [OF s1]) simp
  from e1 assms(6) process_frame_unfold [OF s1]
  have loop: "builtin_loop env frame (trackers s1) s1 = (s', err)" by simp
  from same assms(4) have l1: "map_of (lost s1) name = Some False"
    and c1: "map_of (survival s1) name = map_of (survival s) name"
    by (simp_all add: entry_def)
  from assms(1) sh have d: "distinct (map fst (trackers s1))"
    by (simp add: session_ok_def names_def)
  from assms(3) sh have m: "(name, Some t) \<in> set (trackers s1)"
    by (simp add: map_of_SomeD)
  from builtin_loop_raises [OF loop d m assms(2) l1 assms(5)] c1 show ?thesis by simp
qed

subsection \<open>Reports and failures of initialization\<close>

lemma try_init_fails_iff:
  "try_init env frame0 box m = Inl e \<longleftrightarrow>
     create_tracker env m = Inl e
     \<or> (\<exists>t. create_tracker env m = Inr t \<and> tracker_init env t frame0 box = Inl e)"
  by (cases "create_tracker env m") (simp_all add: try_init_def)

lemma initializes_iff:
  "initializes env frame0 box m \<longleftrightarrow>
     m \<noteq> ''template''
     \<and> (\<exists>t t'. create_tracker env m = Inr t \<and> tracker_init env t frame0 box = Inr t')"
proof (cases "create_tracker env m")
  case (Inl e)
  then show ?thesis by (simp add: initializes_def try_init_def)
next
  case (Inr t)
  then show ?thesis
    by (cases "tracker_init env t frame0 box") (simp_all add: initializes_def try_init_def)
qed

lemma finished_report:
  assumes "run_tracking env wd video_path methods = Inr (Finished s unread)"
    and "first_frame wd = Some frame0" and "selectROI wd = box"
  shows "map fst (survival s) = init_order env frame0 box methods
       \<and> total_frames s = int (frames_consumed (stream wd))
       \<and> unread = drop (frames_consumed (stream wd)) (stream wd)
       \<and> out s = out (init_session env frame0 box methods)
           @ [CHR 0x0A # ''=== Tracking survival summary ==='',
              ''Total frames processed: '' @ str_int (total_frames s)]
           @ map (\<lambda>(name, count).
                    ljust 9 name @ '': survived '' @ str_int count @ '' / ''
                      @ str_int (total_frames s) @ '' frames'')
               (survival s)"
proof -
  from run_tracking_finished [OF assms(1)] assms(2,3) obtain s0 where
    sa: "session_after env frame0 box methods (stream wd) = (s0, unread, None)"
    and s: "s = s0\<lparr>out := out s0 @ summary s0\<rparr>"
    by auto
  from session_after_facts [OF sa]
  have ok: "session_ok (make_template env frame0 box methods) s0"
    and n: "names s0 = init_order env frame0 box methods"
    and o: "out s0 = out (init_session env frame0 box methods)" by auto
  from ok n have k: "map fst (survival s0) = init_order env frame0 box methods"
    by (simp add: session_ok_def)
  from session_after_normal [OF sa] k o show ?thesis
    unfolding s by (simp add: summary_def summary_line_fun)
qed

subsection \<open>Evaluations on the concrete sessions\<close>

lemma demo_env_behaves: "updates_ok demo_env"
  unfolding updates_ok_def
proof (intro allI)
  fix t :: nat and frame :: "real \<times> bool \<times> real \<times> real \<times> real \<times> real"
  obtain conf ok x y w h where f: "frame = (conf, ok, x, y, w, h)"
    by (cases frame) auto
  have "tracker_update demo_env t frame = Inr (Suc t, ok, Finite x, Finite y, Finite w, Finite h)"
    unfolding f by (simp add: demo_env_def)
  moreover have "finite_box (Finite x, Finite y, Finite w, Finite h)"
    by (simp add: finite_box_def)
  ultimately show "\<exists>t' ok bbox. tracker_update demo_env t frame = Inr (t', ok, bbox)
                      \<and> (ok \<longrightarrow> finite_box bbox)"
    by blast
qed

text \<open>A NaN in a box reported with \<^verbatim>\<open>ok\<close>, and an update that raises, end the run by
  the exception, with the entry neither marked lost nor counted.\<close>

lemma nan_box_ends_the_run:
  "session_after raw_env raw_frame0 demo_box [''csrt'']
     [((0.9, True, (NaN, Finite 10, Finite 20, Finite 20)), - 1), (raw_frame0, - 1)]
   = (\<lparr>trackers = [(''csrt'', Some 1)], lost = [(''csrt'', False)],
       survival = [(''csrt'', 0)], total_frames = 1,
       out = roi_prompt @ [''[INFO] Initialized tracker: csrt''],
       calls = [UpdateCall ''csrt'' 1]\<rparr>,
      [(raw_frame0, - 1)],
      Some (ValueError ''cannot convert float NaN to integer''))"
  by code_simp

lemma raising_update_ends_the_run:
  "session_after raw_env raw_frame0 demo_box [''csrt'']
     [((- 1, True, (Finite 10, Finite 10, Finite 20, Finite 20)), - 1), (raw_frame0, - 1)]
   = (\<lparr>trackers = [(''csrt'', Some 0)], lost = [(''csrt'', False)],
       survival = [(''csrt'', 0)], total_frames = 1,
       out = roi_prompt @ [''[INFO] Initialized tracker: csrt''],
       calls = [UpdateCall ''csrt'' 1]\<rparr>,
      [(raw_frame0, - 1)],
      Some (CvError ''update failed''))"
  by code_simp

lemma exception_leaves_run_tracking:
  "run_tracking raw_env
     \<lparr>isOpened = True, first_frame = Some raw_frame0, selectROI = demo_box,
      stream = [((0.9, True, (Finite 10, Finite 10, PosInf, Finite 20)), - 1)]\<rparr>
     ''video.mp4'' [''csrt'']
   = Inl (OverflowError ''cannot convert float infinity to integer'')"
  by code_simp

section \<open>The claims\<close>

text \<open>
  C1. In every session and for every entry, the lost flag never goes back: when the entry
  is lost after the frames \<open>pre\<close>, then after any further frames \<open>post\<close> of the same
  session, however the loop ends (also by an exception), it is still lost, its survival
  count is the same, no capability was invoked for it again, and its tracker object is
  untouched. With a tracker library that behaves the loop ends without exception.
\<close>

theorem lost_is_permanent:
  assumes "session_after env frame0 box methods pre = (s1, unread1, err1)"
    and "map_of (lost s1) name = Some True"
  shows "\<exists>s2 unread2 err2.
           session_after env frame0 box methods (pre @ post) = (s2, unread2, err2)
           \<and> map_of (lost s2) name = Some True
           \<and> map_of (survival s2) name = map_of (survival s1) name
           \<and> calls_of name s2 = calls_of name s1
           \<and> map_of (trackers s2) name = map_of (trackers s1) name
           \<and> (updates_ok env \<longrightarrow> err2 = None)"
proof -
  let ?tmpl = "make_template env frame0 box methods"
  let ?s0 = "(init_session env frame0 box methods)\<lparr>total_frames := 0\<rparr>"
  from assms(1) have pre: "run_loop env ?tmpl ?s0 pre = (s1, unread1, err1)"
    by (simp add: session_after_def)
  obtain s2 unread2 err2 where
    s2: "session_after env frame0 box methods (pre @ post) = (s2, unread2, err2)"
    by (cases "session_after env frame0 box methods (pre @ post)") auto
  then have all: "run_loop env ?tmpl ?s0 (pre @ post) = (s2, unread2, err2)"
    by (simp add: session_after_def)
  from assms(2) have inactive: "map_of (lost s1) name \<noteq> Some False" by simp
  have "entry s2 name = entry s1 name"
  proof -
    from run_loop_append [OF pre, of post]
    consider "run_loop env ?tmpl ?s0 (pre @ post) = (s1, unread1 @ post, err1)"
      | "run_loop env ?tmpl ?s0 (pre @ post) = run_loop env ?tmpl s1 post" by blast
    then show ?thesis
    proof cases
      case 1
      with all show ?thesis by simp
    next
      case 2
      with all have "run_loop env ?tmpl s1 post = (s2, unread2, err2)" by simp
      from run_loop_entry [OF this inactive] show ?thesis .
    qed
  qed
  moreover have "updates_ok env \<longrightarrow> err2 = None"
    using session_after_calm [of env frame0 box methods "pre @ post"] s2 by simp
  ultimately show ?thesis using assms(2) s2 by (auto simp: entry_def)
qed

theorem lost_is_permanent_witness:
  "map_of (lost (fst (session_after demo_env demo_frame0 demo_box [''template'', ''csrt'']
                        (take 3 demo_cap)))) ''template'' = Some True
   \<and> (\<exists>s2 unread2.
         session_after demo_env demo_frame0 demo_box [''template'', ''csrt''] demo_cap
           = (s2, unread2, None)
         \<and> map_of (lost s2) ''template'' = Some True
         \<and> map_of (survival s2) ''template'' = Some 2
         \<and> calls_of ''template'' s2 = [MatchCall 1, MatchCall 2, MatchCall 3])"
proof -
  let ?S = "session_after demo_env demo_frame0 demo_box [''template'', ''csrt''] (take 3 demo_cap)"
  have ev: "case ?S of (s1, u1, e1) \<Rightarrow> map_of (lost s1) ''template'' = Some True
                \<and> map_of (survival s1) ''template'' = Some 2
                \<and> calls_of ''template'' s1 = [MatchCall 1, MatchCall 2, MatchCall 3]"
    by code_simp
  have ev2: "snd (snd (session_after demo_env demo_frame0 demo_box [''template'', ''csrt'']
                         demo_cap)) = None"
    by code_simp
  obtain s1 u1 e1 where s1: "?S = (s1, u1, e1)" by (cases ?S) auto
  with ev have l1: "map_of (lost s1) ''template'' = Some True"
    and rest: "map_of (survival s1) ''template'' = Some 2"
      "calls_of ''template'' s1 = [MatchCall 1, MatchCall 2, MatchCall 3]"
    by simp_all
  have cap: "take 3 demo_cap @ drop 3 demo_cap = demo_cap" by simp
  from lost_is_permanent [OF s1 l1, of "drop 3 demo_cap"] obtain s2 unread2 err2 where
    "session_after demo_env demo_frame0 demo_box [''template'', ''csrt''] demo_cap
       = (s2, unread2, err2)"
    "map_of (lost s2) ''template'' = Some True"
    "map_of (survival s2) ''template'' = map_of (survival s1) ''template''"
    "calls_of ''template'' s2 = calls_of ''template'' s1"
    unfolding cap by blast
  with ev2 s1 l1 rest show ?thesis by auto
qed

text \<open>
  C2. In every session, after any number of frames and however the loop ended, the
  survival count of every entry is between 0 and the total-frames counter; and one more
  processed frame adds 1 to the counter and at most 1 to each survival count, and that
  only for an entry whose lost flag was false. With a tracker library that behaves
  neither the loop nor the further frame raises.
\<close>

theorem survival_at_most_total:
  "\<exists>s unread err.
     session_after env frame0 box methods cap = (s, unread, err)
     \<and> (\<forall>name c. map_of (survival s) name = Some c \<longrightarrow> 0 \<le> c \<and> c \<le> total_frames s)
     \<and> (updates_ok env \<longrightarrow> err = None)
     \<and> (\<forall>frame. \<exists>s' err'.
           process_frame env (make_template env frame0 box methods) frame s = (s', err')
           \<and> total_frames s' = total_frames s + 1
           \<and> (updates_ok env \<longrightarrow> err' = None)
           \<and> (\<forall>name c. map_of (survival s) name = Some c \<longrightarrow>
                 map_of (survival s') name = Some c
                 \<or> (map_of (survival s') name = Some (c + 1)
                    \<and> map_of (lost s) name = Some False)))"
proof -
  let ?tmpl = "make_template env frame0 box methods"
  let ?s0 = "(init_session env frame0 box methods)\<lparr>total_frames := 0\<rparr>"
  obtain s unread err where
    s: "session_after env frame0 box methods cap = (s, unread, err)"
    by (cases "session_after env frame0 box methods cap") auto
  from session_after_ok [OF s] have ok: "session_ok ?tmpl s" .
  have "fresh (init_session env frame0 box methods)" by (rule init_session_fresh)
  then have zero: "\<forall>item \<in> set (survival ?s0). snd item = 0" by (simp add: fresh_def)
  have b0: "\<forall>name c. map_of (survival ?s0) name = Some c \<longrightarrow> 0 \<le> c \<and> c \<le> total_frames ?s0"
  proof (intro allI impI)
    fix name c
    assume "map_of (survival ?s0) name = Some c"
    then have "(name, c) \<in> set (survival ?s0)" by (rule map_of_SomeD)
    with zero have "c = 0" by fastforce
    then show "0 \<le> c \<and> c \<le> total_frames ?s0" by simp
  qed
  from s have run: "run_loop env ?tmpl ?s0 cap = (s, unread, err)"
    by (simp add: session_after_def)
  note bound = run_loop_bounded [OF session_start_ok run b0]
  have calm: "updates_ok env \<longrightarrow> err = None"
    using session_after_calm [of env frame0 box methods cap] s by simp
  have step: "\<exists>s' err'. process_frame env ?tmpl frame s = (s', err')
           \<and> total_frames s' = total_frames s + 1
           \<and> (updates_ok env \<longrightarrow> err' = None)
           \<and> (\<forall>name c. map_of (survival s) name = Some c \<longrightarrow>
                 map_of (survival s') name = Some c
                 \<or> (map_of (survival s') name = Some (c + 1)
                    \<and> map_of (lost s) name = Some False))" for frame
  proof -
    obtain s' err' where s': "process_frame env ?tmpl frame s = (s', err')"
      by (cases "process_frame env ?tmpl frame s")
    from process_frame_ok [OF ok s'] have t: "total_frames s' = total_frames s + 1" by simp
    from ok have d: "distinct (names s)" by (simp add: session_ok_def)
    have "updates_ok env \<longrightarrow> err' = None"
      using process_frame_calm [where env = env and frame = frame, OF ok] s' by simp
    with process_frame_survival [OF s' d] s' t show ?thesis by blast
  qed
  from s bound calm step show ?thesis by blast
qed

theorem survival_at_most_total_witness:
  "\<exists>s unread.
     session_after demo_env demo_frame0 demo_box [''template'', ''csrt''] demo_cap
       = (s, unread, None)
     \<and> map_of (survival s) ''csrt'' = Some 2 \<and> total_frames s = 4
     \<and> (0::int) \<le> 2 \<and> 2 \<le> total_frames s"
proof -
  let ?S = "session_after demo_env demo_frame0 demo_box [''template'', ''csrt''] demo_cap"
  have ev: "case ?S of (s, u, e) \<Rightarrow>
              map_of (survival s) ''csrt'' = Some 2 \<and> total_frames s = 4 \<and> e = None"
    by code_simp
  from survival_at_most_total [of demo_env demo_frame0 demo_box "[''template'', ''csrt'']" demo_cap]
  obtain s unread err where s: "?S = (s, unread, err)"
    and b: "\<forall>name c. map_of (survival s) name = Some c \<longrightarrow> 0 \<le> c \<and> c \<le> total_frames s"
    by blast
  from ev s have c: "map_of (survival s) ''csrt'' = Some 2" and t: "total_frames s = 4"
    and e: "err = None" by simp_all
  from b c have "(0::int) \<le> 2 \<and> 2 \<le> total_frames s" by blast
  with s c t e show ?thesis by blast
qed

text \<open>
  C7. The counter counts every frame read, whatever the entries do: after the loop it
  is the number of frames read, the rest of the video is unread, and each further
  frame adds exactly 1, also when every entry is lost. When the loop ends without
  exception, as it does with a tracker library that behaves, the frames read are those
  up to the end of the video or to the first quit key (all of them when no quit key is
  pressed).
\<close>

theorem total_frames_counts_every_frame:
  "\<exists>s unread err n.
     session_after env frame0 box methods cap = (s, unread, err)
     \<and> n \<le> length cap \<and> unread = drop n cap \<and> total_frames s = int n
     \<and> (updates_ok env \<longrightarrow> err = None)
     \<and> (err = None \<longrightarrow>
           unread = drop (frames_consumed cap) cap
           \<and> total_frames s = int (frames_consumed cap)
           \<and> (list_all (\<lambda>item. \<not> quit_key (snd item)) cap \<longrightarrow> total_frames s = int (length cap)))
     \<and> (\<forall>frame. \<exists>s' err'.
           process_frame env (make_template env frame0 box methods) frame s = (s', err')
           \<and> total_frames s' = total_frames s + 1
           \<and> (updates_ok env \<longrightarrow> err' = None))"
proof -
  obtain s unread err where
    s: "session_after env frame0 box methods cap = (s, unread, err)"
    by (cases "session_after env frame0 box methods cap") auto
  from session_after_facts [OF s] obtain n where
    ok: "session_ok (make_template env frame0 box methods) s"
    and n: "n \<le> length cap" "unread = drop n cap" "total_frames s = int n"
      "err = None \<longrightarrow> n = frames_consumed cap" by blast
  have calm: "updates_ok env \<longrightarrow> err = None"
    using session_after_calm [of env frame0 box methods cap] s by simp
  have all: "list_all (\<lambda>item. \<not> quit_key (snd item)) cap \<longrightarrow> frames_consumed cap = length cap"
    by (induction cap) auto
  have step: "\<exists>s' err'. process_frame env (make_template env frame0 box methods) frame s = (s', err')
             \<and> total_frames s' = total_frames s + 1
             \<and> (updates_ok env \<longrightarrow> err' = None)" for frame
  proof -
    obtain s' err' where
      s': "process_frame env (make_template env frame0 box methods) frame s = (s', err')"
      by (cases "process_frame env (make_template env frame0 box methods) frame s")
    from process_frame_ok [OF ok s'] process_frame_calm [where env = env and frame = frame, OF ok] s'
    show ?thesis by simp
  qed
  have normal: "err = None \<longrightarrow>
           unread = drop (frames_consumed cap) cap
           \<and> total_frames s = int (frames_consumed cap)
           \<and> (list_all (\<lambda>item. \<not> quit_key (snd item)) cap \<longrightarrow> total_frames s = int (length cap))"
    using n all by auto
  from s n(1,2,3) calm normal step show ?thesis by blast
qed

theorem total_frames_counts_every_frame_witness:
  "\<exists>s. session_after demo_env demo_frame0 demo_box [''template'', ''csrt''] demo_cap
          = (s, [], None)
       \<and> lost s = [(''template'', True), (''csrt'', True)]
       \<and> survival s = [(''template'', 2), (''csrt'', 2)]
       \<and> total_frames s = 4"
proof -
  let ?S = "session_after demo_env demo_frame0 demo_box [''template'', ''csrt''] demo_cap"
  have ev: "case ?S of (s, u, e) \<Rightarrow> lost s = [(''template'', True), (''csrt'', True)]
                \<and> survival s = [(''template'', 2), (''csrt'', 2)] \<and> e = None"
    by code_simp
  have n: "frames_consumed demo_cap = 4" by code_simp
  from total_frames_counts_every_frame
         [of demo_env demo_frame0 demo_box "[''template'', ''csrt'']" demo_cap]
  obtain s unread err where s: "?S = (s, unread, err)"
    and normal: "err = None \<longrightarrow>
           unread = drop (frames_consumed demo_cap) demo_cap
           \<and> total_frames s = int (frames_consumed demo_cap)
           \<and> (list_all (\<lambda>item. \<not> quit_key (snd item)) demo_cap
                \<longrightarrow> total_frames s = int (length demo_cap))"
    by blast
  from ev s have e: "err = None" and l: "lost s = [(''template'', True), (''csrt'', True)]"
    and c: "survival s = [(''template'', 2), (''csrt'', 2)]" by simp_all
  have "drop 4 demo_cap = []" by (simp add: demo_cap_def)
  with normal e n have "unread = []" "total_frames s = 4" by simp_all
  with s e l c show ?thesis by simp
qed

text \<open>
  C3. The template entry, when the template is used. On a frame of any session where the
  entry is not lost, the matcher is invoked once; a confidence below 0.5 marks the entry
  lost and leaves its survival count, any other confidence adds 1 to the count and
  leaves the entry active, whatever the built-in trackers do on that frame. For
  confidences 0.9, 0.8, 0.4, 0.9 on four frames (no quit key before the fourth, and no
  exception in the loop, as with a tracker library that behaves): the entry is active
  after frame 2, lost after frame 3 and after frame 4, its count ends at 2, and the
  matcher ran on frames 1, 2, 3 only.
\<close>

theorem template_loss_policy:
  fixes env :: "('f, 'g, 'tr) cv2"
  assumes "make_template env frame0 box methods = Some template"
  shows
    "(\<forall>pre s unread err frame.
        session_after env frame0 box methods pre = (s, unread, err)
        \<and> map_of (lost s) ''template'' = Some False \<longrightarrow>
        (\<exists>s' err' c. process_frame env (Some template) frame s = (s', err')
           \<and> (updates_ok env \<longrightarrow> err' = None)
           \<and> map_of (survival s) ''template'' = Some c
           \<and> calls_of ''template'' s' = calls_of ''template'' s @ [MatchCall (total_frames s + 1)]
           \<and> (if fst (match_max env (cvtColor env frame) template) < 0.5
               then map_of (lost s') ''template'' = Some True
                    \<and> map_of (survival s') ''template'' = Some c
               else map_of (lost s') ''template'' = Some False
                    \<and> map_of (survival s') ''template'' = Some (c + 1))))
     \<and> (\<forall>f1 f2 f3 f4 k1 k2 k3 k4.
          fst (match_max env (cvtColor env f1) template) = 0.9
          \<and> fst (match_max env (cvtColor env f2) template) = 0.8
          \<and> fst (match_max env (cvtColor env f3) template) = 0.4
          \<and> fst (match_max env (cvtColor env f4) template) = 0.9
          \<and> \<not> quit_key k1 \<and> \<not> quit_key k2 \<and> \<not> quit_key k3
          \<and> snd (snd (session_after env frame0 box methods
                         [(f1, k1), (f2, k2), (f3, k3), (f4, k4)])) = None \<longrightarrow>
          (\<exists>s2 s3 s4.
             session_after env frame0 box methods [(f1, k1), (f2, k2)] = (s2, [], None)
             \<and> map_of (lost s2) ''template'' = Some False
             \<and> session_after env frame0 box methods [(f1, k1), (f2, k2), (f3, k3)]
                 = (s3, [], None)
             \<and> map_of (lost s3) ''template'' = Some True
             \<and> session_after env frame0 box methods [(f1, k1), (f2, k2), (f3, k3), (f4, k4)]
                 = (s4, [], None)
             \<and> map_of (lost s4) ''template'' = Some True
             \<and> map_of (survival s4) ''template'' = Some 2
             \<and> calls_of ''template'' s4 = [MatchCall 1, MatchCall 2, MatchCall 3]
             \<and> total_frames s4 = 4))
     \<and> (updates_ok env \<longrightarrow> (\<forall>cap. snd (snd (session_after env frame0 box methods cap)) = None))"
proof (intro conjI allI impI)
  fix pre s unread err frame
  assume h: "session_after env frame0 box methods pre = (s, unread, err)
        \<and> map_of (lost s) ''template'' = Some False"
  then have ok: "session_ok (Some template) s"
    using session_after_ok [of env frame0 box methods pre s unread err] assms by simp
  from h have l: "map_of (lost s) ''template'' = Some False" by simp
  obtain s' err' where s': "process_frame env (Some template) frame s = (s', err')"
    by (cases "process_frame env (Some template) frame s")
  have calm: "updates_ok env \<longrightarrow> err' = None"
    using process_frame_calm [where env = env and frame = frame, OF ok] s' by simp
  from process_frame_template [OF ok l s'] obtain c where
    c: "map_of (survival s) ''template'' = Some c"
    and e: "entry s' ''template'' =
               (map_of (trackers s) ''template'',
                Some (fst (match_max env (cvtColor env frame) template) < threshold),
                Some (if fst (match_max env (cvtColor env frame) template) < threshold
                      then c else c + 1),
                calls_of ''template'' s @ [MatchCall (total_frames s + 1)])"
    by blast
  from e have "calls_of ''template'' s' = calls_of ''template'' s @ [MatchCall (total_frames s + 1)]"
    and "if fst (match_max env (cvtColor env frame) template) < 0.5
               then map_of (lost s') ''template'' = Some True
                    \<and> map_of (survival s') ''template'' = Some c
               else map_of (lost s') ''template'' = Some False
                    \<and> map_of (survival s') ''template'' = Some (c + 1)"
    by (auto simp: entry_def threshold_def)
  with s' calm c
  show "\<exists>s' err' c. process_frame env (Some template) frame s = (s', err')
           \<and> (updates_ok env \<longrightarrow> err' = None)
           \<and> map_of (survival s) ''template'' = Some c
           \<and> calls_of ''template'' s' = calls_of ''template'' s @ [MatchCall (total_frames s + 1)]
           \<and> (if fst (match_max env (cvtColor env frame) template) < 0.5
               then map_of (lost s') ''template'' = Some True
                    \<and> map_of (survival s') ''template'' = Some c
               else map_of (lost s') ''template'' = Some False
                    \<and> map_of (survival s') ''template'' = Some (c + 1))"
    by blast
next
  fix f1 f2 f3 f4 :: 'f and k1 k2 k3 k4 :: int
  assume h: "fst (match_max env (cvtColor env f1) template) = 0.9
          \<and> fst (match_max env (cvtColor env f2) template) = 0.8
          \<and> fst (match_max env (cvtColor env f3) template) = 0.4
          \<and> fst (match_max env (cvtColor env f4) template) = 0.9
          \<and> \<not> quit_key k1 \<and> \<not> quit_key k2 \<and> \<not> quit_key k3
          \<and> snd (snd (session_after env frame0 box methods
                         [(f1, k1), (f2, k2), (f3, k3), (f4, k4)])) = None"
  let ?tmpl = "Some template"
  let ?s0 = "(init_session env frame0 box methods)\<lparr>total_frames := 0\<rparr>"
  have ok: "session_ok (Some template) (init_session env frame0 box methods)"
    using init_session_ok [of env frame0 box methods] assms by simp
  then have ok0: "session_ok (Some template) ?s0" by (simp add: session_ok_def names_def)
  have fr: "fresh (init_session env frame0 box methods)" by (rule init_session_fresh)
  from ok have "''template'' \<in> set (map fst (lost (init_session env frame0 box methods)))"
    and "map fst (survival (init_session env frame0 box methods))
         = map fst (lost (init_session env frame0 box methods))"
    by (simp_all add: session_ok_def)
  from fresh_entry [OF fr this]
  have l0: "map_of (lost ?s0) ''template'' = Some False"
    and c0: "map_of (survival ?s0) ''template'' = Some 0"
    and k0: "calls_of ''template'' ?s0 = []" by (simp_all add: calls_of_def)
  obtain s1 e1 where p1: "process_frame env ?tmpl f1 ?s0 = (s1, e1)"
    by (cases "process_frame env ?tmpl f1 ?s0")
  from template_frame_active [OF ok0 l0 c0 p1] h k0
  have s1: "session_ok (Some template) s1"
      "total_frames s1 = 1" "map_of (lost s1) ''template'' = Some False"
      "map_of (survival s1) ''template'' = Some 1" "calls_of ''template'' s1 = [MatchCall 1]"
    by (auto simp: threshold_def)
  obtain s2 e2 where p2: "process_frame env ?tmpl f2 s1 = (s2, e2)"
    by (cases "process_frame env ?tmpl f2 s1")
  from template_frame_active [OF s1(1,3,4) p2] h s1(2,5)
  have s2: "session_ok (Some template) s2"
      "total_frames s2 = 2" "map_of (lost s2) ''template'' = Some False"
      "map_of (survival s2) ''template'' = Some 2"
      "calls_of ''template'' s2 = [MatchCall 1, MatchCall 2]"
    by (auto simp: threshold_def)
  obtain s3 e3 where p3: "process_frame env ?tmpl f3 s2 = (s3, e3)"
    by (cases "process_frame env ?tmpl f3 s2")
  from template_frame_active [OF s2(1,3,4) p3] h s2(2,5)
  have s3: "session_ok (Some template) s3"
      "total_frames s3 = 3" "map_of (lost s3) ''template'' = Some True"
      "map_of (survival s3) ''template'' = Some 2"
      "calls_of ''template'' s3 = [MatchCall 1, MatchCall 2, MatchCall 3]"
    by (auto simp: threshold_def)
  obtain s4 e4 where p4: "process_frame env ?tmpl f4 s3 = (s4, e4)"
    by (cases "process_frame env ?tmpl f4 s3")
  from frame_inactive [OF s3(1,3) p4] s3(2,3,4,5)
  have s4: "total_frames s4 = 4" "map_of (lost s4) ''template'' = Some True"
      "map_of (survival s4) ''template'' = Some 2"
      "calls_of ''template'' s4 = [MatchCall 1, MatchCall 2, MatchCall 3]"
    by (auto simp: entry_def)
  have nq: "\<not> quit_key k1" "\<not> quit_key k2" "\<not> quit_key k3" using h by simp_all
  from h have "snd (snd (session_after env frame0 box methods
                         [(f1, k1), (f2, k2), (f3, k3), (f4, k4)])) = None"
    by (elim conjE)
  then have quiet: "snd (snd (run_loop env ?tmpl ?s0
                         [(f1, k1), (f2, k2), (f3, k3), (f4, k4)])) = None"
    unfolding session_after_def assms .
  have n1: "e1 = None"
  proof (rule ccontr)
    assume "e1 \<noteq> None"
    with quiet run_loop_Cons [OF p1, of k1 "[(f2, k2), (f3, k3), (f4, k4)]"]
    show False by (simp del: run_loop.simps(2))
  qed
  have n2: "e2 = None"
  proof (rule ccontr)
    assume "e2 \<noteq> None"
    with quiet n1 nq run_loop_Cons [OF p1, of k1 "[(f2, k2), (f3, k3), (f4, k4)]"]
      run_loop_Cons [OF p2, of k2 "[(f3, k3), (f4, k4)]"]
    show False by (simp del: run_loop.simps(2))
  qed
  have n3: "e3 = None"
  proof (rule ccontr)
    assume "e3 \<noteq> None"
    with quiet n1 n2 nq run_loop_Cons [OF p1, of k1 "[(f2, k2), (f3, k3), (f4, k4)]"]
      run_loop_Cons [OF p2, of k2 "[(f3, k3), (f4, k4)]"]
      run_loop_Cons [OF p3, of k3 "[(f4, k4)]"]
    show False by (simp del: run_loop.simps(2))
  qed
  have n4: "e4 = None"
  proof (rule ccontr)
    assume "e4 \<noteq> None"
    with quiet n1 n2 n3 nq run_loop_Cons [OF p1, of k1 "[(f2, k2), (f3, k3), (f4, k4)]"]
      run_loop_Cons [OF p2, of k2 "[(f3, k3), (f4, k4)]"]
      run_loop_Cons [OF p3, of k3 "[(f4, k4)]"]
      run_loop_Cons [OF p4, of k4 "[]"]
    show False by (simp del: run_loop.simps(2))
  qed
  have r2: "run_loop env ?tmpl ?s0 [(f1, k1), (f2, k2)] = (s2, [], None)"
    using n1 n2 nq run_loop_Cons [OF p1, of k1 "[(f2, k2)]"] run_loop_Cons [OF p2, of k2 "[]"]
    by (simp del: run_loop.simps(2))
  have r3: "run_loop env ?tmpl ?s0 [(f1, k1), (f2, k2), (f3, k3)] = (s3, [], None)"
    using n1 n2 n3 nq run_loop_Cons [OF p1, of k1 "[(f2, k2), (f3, k3)]"]
      run_loop_Cons [OF p2, of k2 "[(f3, k3)]"] run_loop_Cons [OF p3, of k3 "[]"]
    by (simp del: run_loop.simps(2))
  have r4: "run_loop env ?tmpl ?s0 [(f1, k1), (f2, k2), (f3, k3), (f4, k4)] = (s4, [], None)"
    using n1 n2 n3 n4 nq run_loop_Cons [OF p1, of k1 "[(f2, k2), (f3, k3), (f4, k4)]"]
      run_loop_Cons [OF p2, of k2 "[(f3, k3), (f4, k4)]"]
      run_loop_Cons [OF p3, of k3 "[(f4, k4)]"] run_loop_Cons [OF p4, of k4 "[]"]
    by (simp del: run_loop.simps(2))
  have "session_after env frame0 box methods [(f1, k1), (f2, k2)] = (s2, [], None)"
    unfolding session_after_def assms by (rule r2)
  moreover
  have "session_after env frame0 box methods [(f1, k1), (f2, k2), (f3, k3)] = (s3, [], None)"
    unfolding session_after_def assms by (rule r3)
  moreover
  have "session_after env frame0 box methods [(f1, k1), (f2, k2), (f3, k3), (f4, k4)]
       = (s4, [], None)"
    unfolding session_after_def assms by (rule r4)
  ultimately
  show "\<exists>s2 s3 s4.
             session_after env frame0 box methods [(f1, k1), (f2, k2)] = (s2, [], None)
             \<and> map_of (lost s2) ''template'' = Some False
             \<and> session_after env frame0 box methods [(f1, k1), (f2, k2), (f3, k3)]
                 = (s3, [], None)
             \<and> map_of (lost s3) ''template'' = Some True
             \<and> session_after env frame0 box methods [(f1, k1), (f2, k2), (f3, k3), (f4, k4)]
                 = (s4, [], None)
             \<and> map_of (lost s4) ''template'' = Some True
             \<and> map_of (survival s4) ''template'' = Some 2
             \<and> calls_of ''template'' s4 = [MatchCall 1, MatchCall 2, MatchCall 3]
             \<and> total_frames s4 = 4"
    using s2(3) s3(3) s4 by blast
next
  fix cap
  assume "updates_ok env"
  then show "snd (snd (session_after env frame0 box methods cap)) = None"
    by (rule session_after_calm)
qed

theorem template_loss_policy_witness:
  "make_template demo_env demo_frame0 demo_box [''template'', ''csrt''] = Some 1
   \<and> (\<exists>s2 s3 s4.
         session_after demo_env demo_frame0 demo_box [''template'', ''csrt''] (take 2 demo_cap)
           = (s2, [], None)
         \<and> map_of (lost s2) ''template'' = Some False
         \<and> session_after demo_env demo_frame0 demo_box [''template'', ''csrt''] (take 3 demo_cap)
             = (s3, [], None)
         \<and> map_of (lost s3) ''template'' = Some True
         \<and> session_after demo_env demo_frame0 demo_box [''template'', ''csrt''] demo_cap
             = (s4, [], None)
         \<and> map_of (lost s4) ''template'' = Some True
         \<and> map_of (survival s4) ''template'' = Some 2
         \<and> calls_of ''template'' s4 = [MatchCall 1, MatchCall 2, MatchCall 3]
         \<and> total_frames s4 = 4)"
proof -
  let ?f3 = "(0.4 :: real, True, (10 :: real, 10 :: real, 0 :: real, 5 :: real))"
  have mt: "make_template demo_env demo_frame0 demo_box [''template'', ''csrt''] = Some 1"
    by (simp add: make_template_def demo_env_def demo_frame0_def demo_box_def)
  have conf: "fst (match_max demo_env (cvtColor demo_env (c, b)) 1) = c" for c b
    by (simp add: demo_env_def)
  have nq: "\<not> quit_key (- 1)" by (simp add: quit_key_def)
  have quiet: "snd (snd (session_after demo_env demo_frame0 demo_box [''template'', ''csrt'']
            [((0.9, good), - 1), ((0.8, good), - 1), (?f3, - 1), ((0.9, good), - 1)])) = None"
    by code_simp
  note scenario = template_loss_policy [OF mt, THEN conjunct2, THEN conjunct1, rule_format,
      of "(0.9, good)" "(0.8, good)" ?f3 "(0.9, good)" "- 1" "- 1" "- 1" "- 1"]
  have "\<exists>s2 s3 s4.
         session_after demo_env demo_frame0 demo_box [''template'', ''csrt'']
           [((0.9, good), - 1), ((0.8, good), - 1)] = (s2, [], None)
         \<and> map_of (lost s2) ''template'' = Some False
         \<and> session_after demo_env demo_frame0 demo_box [''template'', ''csrt'']
            [((0.9, good), - 1), ((0.8, good), - 1), (?f3, - 1)] = (s3, [], None)
         \<and> map_of (lost s3) ''template'' = Some True
         \<and> session_after demo_env demo_frame0 demo_box [''template'', ''csrt'']
            [((0.9, good), - 1), ((0.8, good), - 1), (?f3, - 1), ((0.9, good), - 1)]
             = (s4, [], None)
         \<and> map_of (lost s4) ''template'' = Some True
         \<and> map_of (survival s4) ''template'' = Some 2
         \<and> calls_of ''template'' s4 = [MatchCall 1, MatchCall 2, MatchCall 3]
         \<and> total_frames s4 = 4"
    by (rule scenario) (simp only: conf nq quiet fst_conv simp_thms)
  with mt show ?thesis by (simp add: demo_cap_def)
qed

text \<open>
  C4, amended. A built-in entry that is not lost, on a frame of any session. When its
  update answers with failure or with a box of four finite numbers: unless an exception
  in another entry's step ends the frame before this entry is reached (then nothing of
  the entry changes), the update is invoked once; when it reports failure, or a width or
  height that \<^verbatim>\<open>int()\<close> truncates to a value \<open>\<le> 0\<close> (a width or height below 1), the
  entry is marked lost and its survival count stays; otherwise the count goes up by 1
  and the entry stays active. When its update raises, or answers success with a box
  that holds a NaN or an infinity, the frame ends by an exception and the entry is
  neither marked lost nor counted. With a tracker library that always answers, with
  finite boxes, the frame raises nothing. The scenario of the specification is the
  update answer \<^verbatim>\<open>(True, (10, 10, 0, 5))\<close>.
\<close>

theorem builtin_loss_policy:
  assumes "session_after env frame0 box methods pre = (s, unread, err)"
    and "name \<noteq> ''template''" and "map_of (trackers s) name = Some (Some t)"
    and "map_of (lost s) name = Some False"
  shows "\<exists>s' err' c.
           process_frame env (make_template env frame0 box methods) frame s = (s', err')
           \<and> (updates_ok env \<longrightarrow> err' = None)
           \<and> map_of (survival s) name = Some c
           \<and> (tracker_update env t frame = Inr (t', ok, bbox)
                \<and> (\<not> ok \<or> bbox = (Finite x, Finite y, Finite w, Finite h)) \<longrightarrow>
               (map_of (trackers s') name = Some (Some t')
                \<and> calls_of name s' = calls_of name s @ [UpdateCall name (total_frames s + 1)]
                \<and> (if \<not> ok \<or> toward_zero w \<le> 0 \<or> toward_zero h \<le> 0
                    then map_of (lost s') name = Some True
                         \<and> map_of (survival s') name = Some c
                    else map_of (lost s') name = Some False
                         \<and> map_of (survival s') name = Some (c + 1)))
               \<or> (err' \<noteq> None
                   \<and> map_of (trackers s') name = Some (Some t)
                   \<and> calls_of name s' = calls_of name s
                   \<and> map_of (lost s') name = Some False
                   \<and> map_of (survival s') name = Some c))
           \<and> ((\<exists>e. tracker_update env t frame = Inl e)
                \<or> (\<exists>t' bbox. tracker_update env t frame = Inr (t', True, bbox)
                       \<and> \<not> finite_box bbox) \<longrightarrow>
               err' \<noteq> None \<and> map_of (lost s') name = Some False
               \<and> map_of (survival s') name = Some c)
           \<and> (toward_zero w \<le> 0 \<longleftrightarrow> w < 1) \<and> (toward_zero h \<le> 0 \<longleftrightarrow> h < 1)"
proof -
  let ?tmpl = "make_template env frame0 box methods"
  from session_after_ok [OF assms(1)] have ok: "session_ok ?tmpl s" .
  obtain s' err' where s': "process_frame env ?tmpl frame s = (s', err')"
    by (cases "process_frame env ?tmpl frame s")
  have calm: "updates_ok env \<longrightarrow> err' = None"
    using process_frame_calm [where env = env and frame = frame, OF ok] s' by simp
  from assms(4) have "(name, False) \<in> set (lost s)" by (rule map_of_SomeD)
  then have "name \<in> set (map fst (lost s))" by force
  with ok have "name \<in> set (map fst (survival s))" by (simp add: session_ok_def)
  then obtain c where c: "map_of (survival s) name = Some c"
    using map_of_in_keys by metis
  let ?good = "ok \<and> 0 < toward_zero w \<and> 0 < toward_zero h"
  have cond: "(\<not> ok \<or> toward_zero w \<le> 0 \<or> toward_zero h \<le> 0) = (\<not> ?good)" by auto
  have main: "tracker_update env t frame = Inr (t', ok, bbox)
                \<and> (\<not> ok \<or> bbox = (Finite x, Finite y, Finite w, Finite h)) \<longrightarrow>
               (map_of (trackers s') name = Some (Some t')
                \<and> calls_of name s' = calls_of name s @ [UpdateCall name (total_frames s + 1)]
                \<and> (if \<not> ok \<or> toward_zero w \<le> 0 \<or> toward_zero h \<le> 0
                    then map_of (lost s') name = Some True
                         \<and> map_of (survival s') name = Some c
                    else map_of (lost s') name = Some False
                         \<and> map_of (survival s') name = Some (c + 1)))
               \<or> (err' \<noteq> None
                   \<and> map_of (trackers s') name = Some (Some t)
                   \<and> calls_of name s' = calls_of name s
                   \<and> map_of (lost s') name = Some False
                   \<and> map_of (survival s') name = Some c)"
  proof (rule impI)
    assume h: "tracker_update env t frame = Inr (t', ok, bbox)
                \<and> (\<not> ok \<or> bbox = (Finite x, Finite y, Finite w, Finite h))"
    then have up: "tracker_update env t frame = Inr (t', ok, bbox)"
      and fin: "\<not> ok \<or> bbox = (Finite x, Finite y, Finite w, Finite h)" by simp_all
    from process_frame_builtin [OF ok assms(2,3,4) up fin s'] c
    have e: "entry s' name =
                 (Some (Some t'), Some (\<not> ?good), Some (if ?good then c + 1 else c),
                  calls_of name s @ [UpdateCall name (total_frames s + 1)])
               \<or> (err' \<noteq> None \<and> entry s' name = entry s name)"
      by auto
    from e show "(map_of (trackers s') name = Some (Some t')
                \<and> calls_of name s' = calls_of name s @ [UpdateCall name (total_frames s + 1)]
                \<and> (if \<not> ok \<or> toward_zero w \<le> 0 \<or> toward_zero h \<le> 0
                    then map_of (lost s') name = Some True
                         \<and> map_of (survival s') name = Some c
                    else map_of (lost s') name = Some False
                         \<and> map_of (survival s') name = Some (c + 1)))
               \<or> (err' \<noteq> None
                   \<and> map_of (trackers s') name = Some (Some t)
                   \<and> calls_of name s' = calls_of name s
                   \<and> map_of (lost s') name = Some False
                   \<and> map_of (survival s') name = Some c)"
    proof
      assume "entry s' name =
                 (Some (Some t'), Some (\<not> ?good), Some (if ?good then c + 1 else c),
                  calls_of name s @ [UpdateCall name (total_frames s + 1)])"
      then have "map_of (trackers s') name = Some (Some t')
                \<and> calls_of name s' = calls_of name s @ [UpdateCall name (total_frames s + 1)]
                \<and> map_of (lost s') name = Some (\<not> ?good)
                \<and> map_of (survival s') name = Some (if ?good then c + 1 else c)"
        by (simp add: entry_def)
      then show ?thesis unfolding cond by (cases ?good) simp_all
    next
      assume "err' \<noteq> None \<and> entry s' name = entry s name"
      with assms(3,4) c show ?thesis by (simp add: entry_def)
    qed
  qed
  have exc: "(\<exists>e. tracker_update env t frame = Inl e)
                \<or> (\<exists>t' bbox. tracker_update env t frame = Inr (t', True, bbox)
                       \<and> \<not> finite_box bbox) \<longrightarrow>
               err' \<noteq> None \<and> map_of (lost s') name = Some False
               \<and> map_of (survival s') name = Some c"
  proof (rule impI)
    assume r: "(\<exists>e. tracker_update env t frame = Inl e)
                \<or> (\<exists>t' bbox. tracker_update env t frame = Inr (t', True, bbox)
                       \<and> \<not> finite_box bbox)"
    from process_frame_raises [OF ok assms(2,3,4) r s'] c
    show "err' \<noteq> None \<and> map_of (lost s') name = Some False
               \<and> map_of (survival s') name = Some c" by simp
  qed
  have tz: "(toward_zero w \<le> 0 \<longleftrightarrow> w < 1) \<and> (toward_zero h \<le> 0 \<longleftrightarrow> h < 1)"
    by (simp add: toward_zero_nonpositive)
  show ?thesis
    by (intro exI conjI) (rule s' calm c main exc tz [THEN conjunct1] tz [THEN conjunct2])+
qed

theorem builtin_loss_policy_witness:
  "(\<exists>s s'. session_after demo_env demo_frame0 demo_box [''template'', ''csrt''] (take 2 demo_cap)
             = (s, [], None)
     \<and> map_of (trackers s) ''csrt'' = Some (Some 2)
     \<and> map_of (lost s) ''csrt'' = Some False
     \<and> map_of (survival s) ''csrt'' = Some 2
     \<and> tracker_update demo_env 2 (0.4, True, (10, 10, 0, 5))
         = Inr (3, True, Finite 10, Finite 10, Finite 0, Finite 5)
     \<and> process_frame demo_env (make_template demo_env demo_frame0 demo_box [''template'', ''csrt''])
          (0.4, True, (10, 10, 0, 5)) s = (s', None)
     \<and> map_of (lost s') ''csrt'' = Some True
     \<and> map_of (survival s') ''csrt'' = Some 2)
   \<and> (\<exists>s s'. session_after raw_env raw_frame0 demo_box [''csrt''] [] = (s, [], None)
     \<and> map_of (trackers s) ''csrt'' = Some (Some 0)
     \<and> map_of (lost s) ''csrt'' = Some False
     \<and> map_of (survival s) ''csrt'' = Some 0
     \<and> tracker_update raw_env 0 (0.9, True, (NaN, Finite 10, Finite 20, Finite 20))
         = Inr (1, True, NaN, Finite 10, Finite 20, Finite 20)
     \<and> process_frame raw_env (make_template raw_env raw_frame0 demo_box [''csrt''])
          (0.9, True, (NaN, Finite 10, Finite 20, Finite 20)) s
         = (s', Some (ValueError ''cannot convert float NaN to integer''))
     \<and> map_of (lost s') ''csrt'' = Some False
     \<and> map_of (survival s') ''csrt'' = Some 0)"
proof (rule conjI)
  let ?S = "session_after demo_env demo_frame0 demo_box [''template'', ''csrt''] (take 2 demo_cap)"
  let ?f = "(0.4 :: real, True, (10 :: real, 10 :: real, 0 :: real, 5 :: real))"
  have ev: "case ?S of (s, u, e) \<Rightarrow> u = [] \<and> e = None
                \<and> map_of (trackers s) ''csrt'' = Some (Some 2)
                \<and> map_of (lost s) ''csrt'' = Some False
                \<and> map_of (survival s) ''csrt'' = Some 2"
    by code_simp
  obtain s u e where s0: "?S = (s, u, e)" by (cases ?S) auto
  with ev have s: "?S = (s, [], None)" and tr: "map_of (trackers s) ''csrt'' = Some (Some 2)"
    and l: "map_of (lost s) ''csrt'' = Some False" and c: "map_of (survival s) ''csrt'' = Some 2"
    by simp_all
  have nt: "''csrt'' \<noteq> ''template''" by simp
  have up: "tracker_update demo_env 2 ?f = Inr (3, True, Finite 10, Finite 10, Finite 0, Finite 5)"
    by (simp add: demo_env_def)
  have z: "toward_zero 0 \<le> 0" by (simp add: toward_zero_def)
  from builtin_loss_policy [OF s nt tr l, where frame = ?f and t' = 3 and ok = True
      and bbox = "(Finite 10, Finite 10, Finite 0, Finite 5)"
      and x = 10 and y = 10 and w = 0 and h = 5]
  obtain s' err' c' where
    p: "process_frame demo_env
          (make_template demo_env demo_frame0 demo_box [''template'', ''csrt'']) ?f s = (s', err')"
    and calm: "updates_ok demo_env \<longrightarrow> err' = None"
    and c': "map_of (survival s) ''csrt'' = Some c'"
    and eff: "tracker_update demo_env 2 ?f
                  = Inr (3, True, Finite 10, Finite 10, Finite 0, Finite 5)
                \<and> (\<not> True \<or> (Finite 10, Finite 10, Finite 0, Finite 5)
                       = (Finite (10::real), Finite (10::real), Finite (0::real), Finite (5::real)))
               \<longrightarrow>
               (map_of (trackers s') ''csrt'' = Some (Some 3)
                \<and> calls_of ''csrt'' s' = calls_of ''csrt'' s @ [UpdateCall ''csrt'' (total_frames s + 1)]
                \<and> (if \<not> True \<or> toward_zero 0 \<le> 0 \<or> toward_zero 5 \<le> 0
                    then map_of (lost s') ''csrt'' = Some True
                         \<and> map_of (survival s') ''csrt'' = Some c'
                    else map_of (lost s') ''csrt'' = Some False
                         \<and> map_of (survival s') ''csrt'' = Some (c' + 1)))
               \<or> (err' \<noteq> None
                   \<and> map_of (trackers s') ''csrt'' = Some (Some 2)
                   \<and> calls_of ''csrt'' s' = calls_of ''csrt'' s
                   \<and> map_of (lost s') ''csrt'' = Some False
                   \<and> map_of (survival s') ''csrt'' = Some c')"
    by (elim exE conjE) (rule that)
  from calm demo_env_behaves have e': "err' = None" by simp
  with eff up z c c' have "map_of (lost s') ''csrt'' = Some True"
    "map_of (survival s') ''csrt'' = Some 2" by simp_all
  with s tr l c up p e'
  show "\<exists>s s'. session_after demo_env demo_frame0 demo_box [''template'', ''csrt''] (take 2 demo_cap)
             = (s, [], None)
     \<and> map_of (trackers s) ''csrt'' = Some (Some 2)
     \<and> map_of (lost s) ''csrt'' = Some False
     \<and> map_of (survival s) ''csrt'' = Some 2
     \<and> tracker_update demo_env 2 (0.4, True, (10, 10, 0, 5))
         = Inr (3, True, Finite 10, Finite 10, Finite 0, Finite 5)
     \<and> process_frame demo_env (make_template demo_env demo_frame0 demo_box [''template'', ''csrt''])
          (0.4, True, (10, 10, 0, 5)) s = (s', None)
     \<and> map_of (lost s') ''csrt'' = Some True
     \<and> map_of (survival s') ''csrt'' = Some 2"
    by blast
next
  let ?S = "session_after raw_env raw_frame0 demo_box [''csrt''] []"
  let ?g = "(0.9 :: real, True, (NaN, Finite 10, Finite 20, Finite 20))"
  have ev: "case ?S of (s, u, e) \<Rightarrow> u = [] \<and> e = None
                \<and> map_of (trackers s) ''csrt'' = Some (Some 0)
                \<and> map_of (lost s) ''csrt'' = Some False
                \<and> map_of (survival s) ''csrt'' = Some 0
                \<and> snd (process_frame raw_env (make_template raw_env raw_frame0 demo_box [''csrt''])
                         ?g s)
                    = Some (ValueError ''cannot convert float NaN to integer'')"
    by code_simp
  obtain s u e where s0: "?S = (s, u, e)" by (cases ?S) auto
  with ev have s: "?S = (s, [], None)" and tr: "map_of (trackers s) ''csrt'' = Some (Some 0)"
    and l: "map_of (lost s) ''csrt'' = Some False" and c: "map_of (survival s) ''csrt'' = Some 0"
    and ex: "snd (process_frame raw_env (make_template raw_env raw_frame0 demo_box [''csrt''])
                         ?g s)
                    = Some (ValueError ''cannot convert float NaN to integer'')"
    by simp_all
  have nt: "''csrt'' \<noteq> ''template''" by simp
  have up: "tracker_update raw_env 0 ?g = Inr (1, True, NaN, Finite 10, Finite 20, Finite 20)"
    by (simp add: raw_env_def)
  have nf: "\<not> finite_box (NaN, Finite 10, Finite 20, Finite 20)"
    by (simp add: finite_box_def)
  from up nf have r: "(\<exists>e. tracker_update raw_env 0 ?g = Inl e)
                \<or> (\<exists>t' bbox. tracker_update raw_env 0 ?g = Inr (t', True, bbox)
                       \<and> \<not> finite_box bbox)"
    by simp
  from builtin_loss_policy [OF s nt tr l, where frame = ?g and t' = 1 and ok = True
      and bbox = "(NaN, Finite 10, Finite 20, Finite 20)"
      and x = 0 and y = 0 and w = 0 and h = 0]
  obtain s' err' c' where
    p: "process_frame raw_env (make_template raw_env raw_frame0 demo_box [''csrt'']) ?g s
          = (s', err')"
    and c': "map_of (survival s) ''csrt'' = Some c'"
    and exc: "(\<exists>e. tracker_update raw_env 0 ?g = Inl e)
                \<or> (\<exists>t' bbox. tracker_update raw_env 0 ?g = Inr (t', True, bbox)
                       \<and> \<not> finite_box bbox) \<longrightarrow>
               err' \<noteq> None \<and> map_of (lost s') ''csrt'' = Some False
               \<and> map_of (survival s') ''csrt'' = Some c'"
    by (elim exE conjE) (rule that)
  from exc r have post: "err' \<noteq> None \<and> map_of (lost s') ''csrt'' = Some False
               \<and> map_of (survival s') ''csrt'' = Some c'" by (rule mp)
  from post have "map_of (lost s') ''csrt'' = Some False"
    and "map_of (survival s') ''csrt'' = Some c'" by simp_all
  moreover from ex p have "err' = Some (ValueError ''cannot convert float NaN to integer'')"
    by simp
  ultimately show "\<exists>s s'. session_after raw_env raw_frame0 demo_box [''csrt''] [] = (s, [], None)
     \<and> map_of (trackers s) ''csrt'' = Some (Some 0)
     \<and> map_of (lost s) ''csrt'' = Some False
     \<and> map_of (survival s) ''csrt'' = Some 0
     \<and> tracker_update raw_env 0 (0.9, True, (NaN, Finite 10, Finite 20, Finite 20))
         = Inr (1, True, NaN, Finite 10, Finite 20, Finite 20)
     \<and> process_frame raw_env (make_template raw_env raw_frame0 demo_box [''csrt''])
          (0.9, True, (NaN, Finite 10, Finite 20, Finite 20)) s
         = (s', Some (ValueError ''cannot convert float NaN to integer''))
     \<and> map_of (lost s') ''csrt'' = Some False
     \<and> map_of (survival s') ''csrt'' = Some 0"
    using s tr l c c' up p by auto
qed

text \<open>
  C4 as stated fails for a positive width below 1: the update answers
  \<^verbatim>\<open>(True, (10, 10, 0.5, 5))\<close> on the first frame, width and height are positive, and
  the entry is marked lost with its count still 0.
\<close>

theorem builtin_positive_width_counterexample:
  "tracker_update demo_env 0 (0.9, True, (10, 10, 1 / 2, 5))
     = Inr (1, True, Finite 10, Finite 10, Finite (1 / 2), Finite 5)
   \<and> (0::real) < 1 / 2 \<and> (0::real) < 5
   \<and> (case session_after demo_env demo_frame0 demo_box [''csrt'']
              [((0.9, True, (10, 10, 1 / 2, 5)), - 1)] of
         (s, unread, err) \<Rightarrow>
           err = None \<and> map_of (lost s) ''csrt'' = Some True
           \<and> map_of (survival s) ''csrt'' = Some 0
           \<and> calls_of ''csrt'' s = [UpdateCall ''csrt'' 1])
   \<and> map_of (lost (init_session demo_env demo_frame0 demo_box [''csrt''])) ''csrt'' = Some False
   \<and> map_of (survival (init_session demo_env demo_frame0 demo_box [''csrt''])) ''csrt'' = Some 0
   \<and> map_of (trackers (init_session demo_env demo_frame0 demo_box [''csrt''])) ''csrt''
       = Some (Some 0)"
proof -
  have "tracker_update demo_env 0 (0.9, True, (10, 10, 1 / 2, 5))
     = Inr (1, True, Finite 10, Finite 10, Finite (1 / 2), Finite 5)"
    by (simp add: demo_env_def)
  moreover have "case session_after demo_env demo_frame0 demo_box [''csrt'']
              [((0.9, True, (10, 10, 1 / 2, 5)), - 1)] of
         (s, unread, err) \<Rightarrow>
           err = None \<and> map_of (lost s) ''csrt'' = Some True
           \<and> map_of (survival s) ''csrt'' = Some 0
           \<and> calls_of ''csrt'' s = [UpdateCall ''csrt'' 1]"
    by code_simp
  moreover have "map_of (lost (init_session demo_env demo_frame0 demo_box [''csrt''])) ''csrt'' = Some False
   \<and> map_of (survival (init_session demo_env demo_frame0 demo_box [''csrt''])) ''csrt'' = Some 0
   \<and> map_of (trackers (init_session demo_env demo_frame0 demo_box [''csrt''])) ''csrt''
       = Some (Some 0)"
    by code_simp
  ultimately show ?thesis by simp
qed

text \<open>
  C5. A requested built-in method whose construction raises, or whose \<^verbatim>\<open>init\<close> on the
  first frame raises: the warning with its name and the exception text is printed, and
  in the session after any frames, however the loop ended, the method is in none of the
  three dictionaries and no update was invoked for it. The keys are exactly the other
  requested methods: the template when requested, whatever else happens, and the
  built-in methods that are constructed and initialized. A run that ends with the
  summary prints one line per key of \<^verbatim>\<open>survival\<close>, so none for the method.
\<close>

theorem failed_method_is_excluded:
  fixes env :: "('f, 'g, 'tr) cv2"
  assumes "m \<in> set methods" and "m \<noteq> ''template''"
    and "create_tracker env m = Inl e
         \<or> (\<exists>t. create_tracker env m = Inr t \<and> tracker_init env t frame0 box = Inl e)"
  shows
    "''[WARN] Could not create tracker '' @ [CHR 0x27] @ m @ [CHR 0x27] @ '': '' @ str_exn e
       \<in> set (out (init_session env frame0 box methods))
     \<and> (\<exists>s unread err.
          session_after env frame0 box methods cap = (s, unread, err)
          \<and> (updates_ok env \<longrightarrow> err = None)
          \<and> ''[WARN] Could not create tracker '' @ [CHR 0x27] @ m @ [CHR 0x27] @ '': ''
               @ str_exn e \<in> set (out s)
          \<and> m \<notin> set (map fst (trackers s)) \<and> m \<notin> set (map fst (lost s))
          \<and> m \<notin> set (map fst (survival s))
          \<and> calls_of m s = []
          \<and> set (map fst (survival s))
               = {m' \<in> set methods. m' = ''template''
                    \<or> (\<exists>t t'. create_tracker env m' = Inr t
                          \<and> tracker_init env t frame0 box = Inr t')})
     \<and> (\<forall>wd video_path s unread.
          first_frame wd = Some frame0 \<and> selectROI wd = box
          \<and> run_tracking env wd video_path methods = Inr (Finished s unread) \<longrightarrow>
          m \<notin> set (map fst (survival s))
          \<and> out s = out (init_session env frame0 box methods)
              @ [CHR 0x0A # ''=== Tracking survival summary ==='',
                 ''Total frames processed: '' @ str_int (total_frames s)]
              @ map (\<lambda>(name, count).
                       ljust 9 name @ '': survived '' @ str_int count @ '' / ''
                         @ str_int (total_frames s) @ '' frames'')
                  (survival s))"
proof -
  let ?tmpl = "make_template env frame0 box methods"
  let ?i = "init_session env frame0 box methods"
  let ?s0 = "?i\<lparr>total_frames := 0\<rparr>"
  let ?W = "''[WARN] Could not create tracker '' @ [CHR 0x27] @ m @ [CHR 0x27] @ '': ''
              @ str_exn e"
  from assms(3) have fails: "try_init env frame0 box m = Inl e"
    by (simp only: try_init_fails_iff)
  have "warn_line m e \<in> set (out ?i)"
    unfolding init_session_def by (rule init_loop_warns [OF assms(1,2) fails])
  then have warn: "?W \<in> set (out ?i)" by (simp add: warn_line_def)
  from fails have "\<not> initializes env frame0 box m" by (simp add: initializes_def)
  with assms(2) have notin: "m \<notin> set (init_order env frame0 box methods)"
    by (simp add: init_order_set)
  have keyset: "set (init_order env frame0 box methods)
               = {m' \<in> set methods. m' = ''template''
                    \<or> (\<exists>t t'. create_tracker env m' = Inr t
                          \<and> tracker_init env t frame0 box = Inr t')}"
    unfolding init_order_set by (auto simp: initializes_iff)
  have part2: "\<exists>s unread err.
          session_after env frame0 box methods cap = (s, unread, err)
          \<and> (updates_ok env \<longrightarrow> err = None)
          \<and> ?W \<in> set (out s)
          \<and> m \<notin> set (map fst (trackers s)) \<and> m \<notin> set (map fst (lost s))
          \<and> m \<notin> set (map fst (survival s))
          \<and> calls_of m s = []
          \<and> set (map fst (survival s))
               = {m' \<in> set methods. m' = ''template''
                    \<or> (\<exists>t t'. create_tracker env m' = Inr t
                          \<and> tracker_init env t frame0 box = Inr t')}"
  proof -
    obtain s unread err where
      s: "session_after env frame0 box methods cap = (s, unread, err)"
      by (cases "session_after env frame0 box methods cap") auto
    from session_after_facts [OF s]
    have ok: "session_ok ?tmpl s" and n: "names s = init_order env frame0 box methods"
      and o: "out s = out ?i" by auto
    from ok n have keys: "map fst (trackers s) = init_order env frame0 box methods"
      "map fst (lost s) = init_order env frame0 box methods"
      "map fst (survival s) = init_order env frame0 box methods"
      by (simp_all add: session_ok_def names_def)
    have calm: "updates_ok env \<longrightarrow> err = None"
      using session_after_calm [of env frame0 box methods cap] s by simp
    have calls: "calls_of m s = []"
    proof -
      have "m \<notin> set (map fst (lost ?i))"
        unfolding init_session_keys by (rule notin)
      then have "m \<notin> fst ` set (lost ?s0)" by simp
      then have "map_of (lost ?s0) m = None" by (simp add: map_of_eq_None_iff)
      then have inactive: "map_of (lost ?s0) m \<noteq> Some False" by simp
      from s have "run_loop env ?tmpl ?s0 cap = (s, unread, err)"
        by (simp add: session_after_def)
      from run_loop_entry [OF this inactive] have "calls_of m s = calls_of m ?s0"
        by (simp add: entry_def)
      moreover have "fresh ?i" by (rule init_session_fresh)
      then have "calls_of m ?s0 = []" by (simp add: fresh_def calls_of_def)
      ultimately show ?thesis by simp
    qed
    have a: "m \<notin> set (map fst (trackers s))" "m \<notin> set (map fst (lost s))"
      "m \<notin> set (map fst (survival s))"
      unfolding keys by (rule notin)+
    have b: "set (map fst (survival s))
               = {m' \<in> set methods. m' = ''template''
                    \<or> (\<exists>t t'. create_tracker env m' = Inr t
                          \<and> tracker_init env t frame0 box = Inr t')}"
      unfolding keys by (rule keyset)
    from warn o have w2: "?W \<in> set (out s)" by simp
    from s calm w2 a calls b show ?thesis by blast
  qed
  have part3: "\<forall>wd video_path s unread.
          first_frame wd = Some frame0 \<and> selectROI wd = box
          \<and> run_tracking env wd video_path methods = Inr (Finished s unread) \<longrightarrow>
          m \<notin> set (map fst (survival s))
          \<and> out s = out (init_session env frame0 box methods)
              @ [CHR 0x0A # ''=== Tracking survival summary ==='',
                 ''Total frames processed: '' @ str_int (total_frames s)]
              @ map (\<lambda>(name, count).
                       ljust 9 name @ '': survived '' @ str_int count @ '' / ''
                         @ str_int (total_frames s) @ '' frames'')
                  (survival s)"
  proof (intro allI impI)
    fix wd :: "'f world" and video_path and s :: "'tr session" and unread
    assume h: "first_frame wd = Some frame0 \<and> selectROI wd = box
          \<and> run_tracking env wd video_path methods = Inr (Finished s unread)"
    then have r: "run_tracking env wd video_path methods = Inr (Finished s unread)"
      and f: "first_frame wd = Some frame0" and b: "selectROI wd = box" by simp_all
    note rep = finished_report [OF r f b]
    from rep have k: "map fst (survival s) = init_order env frame0 box methods" by simp
    have "m \<notin> set (map fst (survival s))" unfolding k by (rule notin)
    with rep show "m \<notin> set (map fst (survival s))
          \<and> out s = out (init_session env frame0 box methods)
              @ [CHR 0x0A # ''=== Tracking survival summary ==='',
                 ''Total frames processed: '' @ str_int (total_frames s)]
              @ map (\<lambda>(name, count).
                       ljust 9 name @ '': survived '' @ str_int count @ '' / ''
                         @ str_int (total_frames s) @ '' frames'')
                  (survival s)"
      by simp
  qed
  from warn part2 part3 show ?thesis by (intro conjI)
qed

theorem failed_method_is_excluded_witness:
  "create_tracker demo_env ''kcf'' = Inl (CvError ''no KCF'')
   \<and> create_tracker demo_env ''mosse'' = Inr 7
   \<and> tracker_init demo_env 7 demo_frame0 demo_box = Inl (CvError ''init failed'')
   \<and> (\<exists>s. session_after demo_env demo_frame0 demo_box
              [''template'', ''kcf'', ''mosse'', ''csrt''] demo_cap = (s, [], None)
        \<and> ''[WARN] Could not create tracker '' @ [CHR 0x27] @ ''kcf'' @ [CHR 0x27]
             @ '': no KCF'' \<in> set (out s)
        \<and> ''[WARN] Could not create tracker '' @ [CHR 0x27] @ ''mosse'' @ [CHR 0x27]
             @ '': init failed'' \<in> set (out s)
        \<and> map fst (survival s) = [''template'', ''csrt'']
        \<and> calls_of ''kcf'' s = [] \<and> calls_of ''mosse'' s = [])
   \<and> (\<exists>s. run_tracking demo_env demo_world ''video.mp4''
              [''template'', ''kcf'', ''mosse'', ''csrt''] = Inr (Finished s [])
        \<and> out s = roi_prompt
            @ [''[WARN] Could not create tracker '' @ [CHR 0x27] @ ''kcf'' @ [CHR 0x27]
                 @ '': no KCF'',
               ''[WARN] Could not create tracker '' @ [CHR 0x27] @ ''mosse'' @ [CHR 0x27]
                 @ '': init failed'',
               ''[INFO] Initialized tracker: csrt'',
               CHR 0x0A # ''=== Tracking survival summary ==='',
               ''Total frames processed: 4'',
               ''template : survived 2 / 4 frames'',
               ''csrt     : survived 2 / 4 frames''])"
proof -
  let ?ms = "[''template'', ''kcf'', ''mosse'', ''csrt'']"
  have ck: "create_tracker demo_env ''kcf'' = Inl (CvError ''no KCF'')" by code_simp
  have cm: "create_tracker demo_env ''mosse'' = Inr 7" by code_simp
  have im: "tracker_init demo_env 7 demo_frame0 demo_box = Inl (CvError ''init failed'')"
    by (simp add: demo_env_def)
  have hk: "create_tracker demo_env ''kcf'' = Inl (CvError ''no KCF'')
         \<or> (\<exists>t. create_tracker demo_env ''kcf'' = Inr t
               \<and> tracker_init demo_env t demo_frame0 demo_box = Inl (CvError ''no KCF''))"
    using ck by simp
  have hm: "create_tracker demo_env ''mosse'' = Inl (CvError ''init failed'')
         \<or> (\<exists>t. create_tracker demo_env ''mosse'' = Inr t
               \<and> tracker_init demo_env t demo_frame0 demo_box = Inl (CvError ''init failed''))"
    using cm im by simp
  have mk: "''kcf'' \<in> set ?ms" "''kcf'' \<noteq> ''template''"
    and mm: "''mosse'' \<in> set ?ms" "''mosse'' \<noteq> ''template''" by simp_all
  have w: "first_frame demo_world = Some demo_frame0" "selectROI demo_world = demo_box"
    by (simp_all add: demo_world_def)
  note tk = failed_method_is_excluded [OF mk hk, of demo_cap]
  note tm = failed_method_is_excluded [OF mm hm, of demo_cap]
  have ev: "case session_after demo_env demo_frame0 demo_box ?ms demo_cap of
              (s, u, err) \<Rightarrow> u = [] \<and> map fst (survival s) = [''template'', ''csrt'']"
    by code_simp
  have evr: "case run_tracking demo_env demo_world ''video.mp4'' ?ms of
              Inl e \<Rightarrow> False
            | Inr (Aborted s u) \<Rightarrow> False
            | Inr (Finished s u) \<Rightarrow> u = [] \<and> total_frames s = 4
                \<and> survival s = [(''template'', 2), (''csrt'', 2)]"
    by code_simp
  have ini: "out (init_session demo_env demo_frame0 demo_box ?ms) = roi_prompt
            @ [''[WARN] Could not create tracker '' @ [CHR 0x27] @ ''kcf'' @ [CHR 0x27]
                 @ '': no KCF'',
               ''[WARN] Could not create tracker '' @ [CHR 0x27] @ ''mosse'' @ [CHR 0x27]
                 @ '': init failed'',
               ''[INFO] Initialized tracker: csrt'']"
    by code_simp
  have str: "str_int 4 = ''4''" "str_int 2 = ''2''" "ljust 9 ''template'' = ''template ''"
    "ljust 9 ''csrt'' = ''csrt     ''"
    by code_simp+
  have part2: "\<exists>s. session_after demo_env demo_frame0 demo_box ?ms demo_cap = (s, [], None)
        \<and> ''[WARN] Could not create tracker '' @ [CHR 0x27] @ ''kcf'' @ [CHR 0x27]
             @ '': no KCF'' \<in> set (out s)
        \<and> ''[WARN] Could not create tracker '' @ [CHR 0x27] @ ''mosse'' @ [CHR 0x27]
             @ '': init failed'' \<in> set (out s)
        \<and> map fst (survival s) = [''template'', ''csrt'']
        \<and> calls_of ''kcf'' s = [] \<and> calls_of ''mosse'' s = []"
  proof -
    from tk [THEN conjunct2, THEN conjunct1] obtain s unread err where
      s: "session_after demo_env demo_frame0 demo_box ?ms demo_cap = (s, unread, err)"
      and calm: "updates_ok demo_env \<longrightarrow> err = None"
      and wk: "''[WARN] Could not create tracker '' @ [CHR 0x27] @ ''kcf'' @ [CHR 0x27]
                 @ '': '' @ str_exn (CvError ''no KCF'') \<in> set (out s)"
      and kk: "calls_of ''kcf'' s = []"
      by (elim exE conjE) (rule that)
    from tm [THEN conjunct2, THEN conjunct1] s have
      wm: "''[WARN] Could not create tracker '' @ [CHR 0x27] @ ''mosse'' @ [CHR 0x27]
                 @ '': '' @ str_exn (CvError ''init failed'') \<in> set (out s)"
      and km: "calls_of ''mosse'' s = []"
      by auto
    from calm demo_env_behaves have e: "err = None" by simp
    from ev s have u: "unread = []" and k: "map fst (survival s) = [''template'', ''csrt'']"
      by simp_all
    from s e u wk wm k kk km show ?thesis by simp
  qed
  have part3: "\<exists>s. run_tracking demo_env demo_world ''video.mp4'' ?ms = Inr (Finished s [])
        \<and> out s = roi_prompt
            @ [''[WARN] Could not create tracker '' @ [CHR 0x27] @ ''kcf'' @ [CHR 0x27]
                 @ '': no KCF'',
               ''[WARN] Could not create tracker '' @ [CHR 0x27] @ ''mosse'' @ [CHR 0x27]
                 @ '': init failed'',
               ''[INFO] Initialized tracker: csrt'',
               CHR 0x0A # ''=== Tracking survival summary ==='',
               ''Total frames processed: 4'',
               ''template : survived 2 / 4 frames'',
               ''csrt     : survived 2 / 4 frames'']"
  proof -
    from evr obtain s where
      r: "run_tracking demo_env demo_world ''video.mp4'' ?ms = Inr (Finished s [])"
      and t: "total_frames s = 4" and c: "survival s = [(''template'', 2), (''csrt'', 2)]"
      by (cases "run_tracking demo_env demo_world ''video.mp4'' ?ms")
         (auto split: outcome.splits)
    from tm [THEN conjunct2, THEN conjunct2, rule_format, of demo_world "''video.mp4''" s "[]"]
      w r
    have "out s = out (init_session demo_env demo_frame0 demo_box ?ms)
              @ [CHR 0x0A # ''=== Tracking survival summary ==='',
                 ''Total frames processed: '' @ str_int (total_frames s)]
              @ map (\<lambda>(name, count).
                       ljust 9 name @ '': survived '' @ str_int count @ '' / ''
                         @ str_int (total_frames s) @ '' frames'')
                  (survival s)"
      by simp
    then have "out s = roi_prompt
            @ [''[WARN] Could not create tracker '' @ [CHR 0x27] @ ''kcf'' @ [CHR 0x27]
                 @ '': no KCF'',
               ''[WARN] Could not create tracker '' @ [CHR 0x27] @ ''mosse'' @ [CHR 0x27]
                 @ '': init failed'',
               ''[INFO] Initialized tracker: csrt'',
               CHR 0x0A # ''=== Tracking survival summary ==='',
               ''Total frames processed: 4'',
               ''template : survived 2 / 4 frames'',
               ''csrt     : survived 2 / 4 frames'']"
      unfolding ini t c by (simp add: str)
    with r show ?thesis by (intro exI conjI)
  qed
  from ck cm im part2 part3 show ?thesis by (intro conjI)
qed

text \<open>
  C6. When every requested method fails to initialize (so the template is not among
  them), the run returns at line 83: the last line printed is the error, before it only
  the prompt and one warning per method, no summary; the video past the first frame is
  unread, the counter is 0 and no capability was invoked.
\<close>

theorem no_valid_trackers_aborts:
  fixes env :: "('f, 'g, 'tr) cv2"
  assumes "isOpened wd" and "first_frame wd = Some frame0" and "selectROI wd = (x, y, w, h)"
    and "w \<noteq> 0" and "h \<noteq> 0"
    and "\<forall>m \<in> set methods. m \<noteq> ''template'' \<and> isl (try_init env frame0 (x, y, w, h) m)"
  shows "\<exists>s. run_tracking env wd video_path methods = Inr (Aborted s (stream wd))
           \<and> trackers s = [] \<and> total_frames s = 0 \<and> calls s = []
           \<and> out s = roi_prompt
                 @ map (\<lambda>m. warn_line m (projl (try_init env frame0 (x, y, w, h) m))) methods
                 @ [''[ERROR] No valid trackers initialized. Exiting.'']"
proof -
  from assms(6) have "''template'' \<notin> set methods" by auto
  then have "init_template methods ((empty_session :: 'tr session)\<lparr>out := roi_prompt\<rparr>)
               = empty_session\<lparr>out := roi_prompt\<rparr>"
    by (simp add: init_template_def)
  with init_loop_all_fail [OF assms(6), of "(empty_session :: 'tr session)\<lparr>out := roi_prompt\<rparr>"]
  have i: "init_session env frame0 (x, y, w, h) methods =
          empty_session\<lparr>out := roi_prompt
             @ map (\<lambda>m. warn_line m (projl (try_init env frame0 (x, y, w, h) m))) methods\<rparr>"
    by (simp add: init_session_def)
  with assms(1-5) show ?thesis
    by (simp add: run_tracking_def Let_def empty_session_def)
qed

theorem no_valid_trackers_aborts_witness:
  "\<exists>s. run_tracking demo_env demo_world ''video.mp4'' [''kcf'', ''sift'']
          = Inr (Aborted s demo_cap)
     \<and> trackers s = [] \<and> total_frames s = 0 \<and> calls s = []
     \<and> out s = roi_prompt
           @ [warn_line ''kcf'' (CvError ''no KCF''),
              warn_line ''sift'' (ValueError ''Unknown tracker type: sift''),
              ''[ERROR] No valid trackers initialized. Exiting.'']"
proof -
  have f: "try_init demo_env demo_frame0 (5, 5, 20, 20) ''kcf'' = Inl (CvError ''no KCF'')"
    "try_init demo_env demo_frame0 (5, 5, 20, 20) ''sift''
       = Inl (ValueError ''Unknown tracker type: sift'')"
    by code_simp+
  then have all: "\<forall>m \<in> set [''kcf'', ''sift''].
           m \<noteq> ''template'' \<and> isl (try_init demo_env demo_frame0 (5, 5, 20, 20) m)"
    by simp
  have w: "isOpened demo_world" "first_frame demo_world = Some demo_frame0"
    "selectROI demo_world = (5, 5, 20, 20)" "stream demo_world = demo_cap"
    by (simp_all add: demo_world_def demo_box_def)
  have nz: "(20::int) \<noteq> 0" by simp
  from no_valid_trackers_aborts [OF w(1,2,3) nz nz all, of "''video.mp4''"] f w(4)
  show ?thesis by simp
qed

text \<open>
  C8, amended. A run that passes the test of line 81, and whose frame loop ends without
  an exception, ends with the summary as the last lines printed: the header line, the
  line with the total, and one line per key of \<^verbatim>\<open>survival\<close>, lost or not, in
  initialization order (the template first, then the built-in methods by their first
  successful initialization); each of these lines has the name left-justified in nine
  columns before the colon. The loop raises nothing when every update answers normally,
  with finite numbers in the box of a success.
\<close>

theorem final_report:
  fixes env :: "('f, 'g, 'tr) cv2"
  assumes "isOpened wd" and "first_frame wd = Some frame0" and "selectROI wd = (x, y, w, h)"
    and "w \<noteq> 0" and "h \<noteq> 0" and "init_order env frame0 (x, y, w, h) methods \<noteq> []"
  shows "(\<not> isl (run_tracking env wd video_path methods) \<longrightarrow>
          (\<exists>s. run_tracking env wd video_path methods
                  = Inr (Finished s (drop (frames_consumed (stream wd)) (stream wd)))
             \<and> total_frames s = int (frames_consumed (stream wd))
             \<and> map fst (survival s) = init_order env frame0 (x, y, w, h) methods
             \<and> out s = out (init_session env frame0 (x, y, w, h) methods)
                   @ [CHR 0x0A # ''=== Tracking survival summary ==='',
                      ''Total frames processed: '' @ str_int (total_frames s)]
                   @ map (\<lambda>(name, count).
                            ljust 9 name @ '': survived '' @ str_int count @ '' / ''
                              @ str_int (total_frames s) @ '' frames'')
                       (survival s)))
       \<and> (updates_ok env \<longrightarrow> \<not> isl (run_tracking env wd video_path methods))"
proof (rule conjI)
  obtain s0 u0 e0 where
    sa: "session_after env frame0 (x, y, w, h) methods (stream wd) = (s0, u0, e0)"
    by (cases "session_after env frame0 (x, y, w, h) methods (stream wd)") auto
  note rt = run_tracking_reaches_loop [OF assms sa, of video_path]
  show "\<not> isl (run_tracking env wd video_path methods) \<longrightarrow>
          (\<exists>s. run_tracking env wd video_path methods
                  = Inr (Finished s (drop (frames_consumed (stream wd)) (stream wd)))
             \<and> total_frames s = int (frames_consumed (stream wd))
             \<and> map fst (survival s) = init_order env frame0 (x, y, w, h) methods
             \<and> out s = out (init_session env frame0 (x, y, w, h) methods)
                   @ [CHR 0x0A # ''=== Tracking survival summary ==='',
                      ''Total frames processed: '' @ str_int (total_frames s)]
                   @ map (\<lambda>(name, count).
                            ljust 9 name @ '': survived '' @ str_int count @ '' / ''
                              @ str_int (total_frames s) @ '' frames'')
                       (survival s))"
  proof (rule impI)
    assume n: "\<not> isl (run_tracking env wd video_path methods)"
    with rt have e: "e0 = None" by (cases e0) simp_all
    let ?s = "s0\<lparr>out := out s0 @ summary s0\<rparr>"
    from rt e have r: "run_tracking env wd video_path methods = Inr (Finished ?s u0)"
      by simp
    note rep = finished_report [OF r assms(2,3)]
    from rep have u: "u0 = drop (frames_consumed (stream wd)) (stream wd)" by simp
    from r have r': "run_tracking env wd video_path methods
                  = Inr (Finished ?s (drop (frames_consumed (stream wd)) (stream wd)))"
      unfolding u .
    from rep have t: "total_frames ?s = int (frames_consumed (stream wd))"
      and k: "map fst (survival ?s) = init_order env frame0 (x, y, w, h) methods"
      and o: "out ?s = out (init_session env frame0 (x, y, w, h) methods)
                   @ [CHR 0x0A # ''=== Tracking survival summary ==='',
                      ''Total frames processed: '' @ str_int (total_frames ?s)]
                   @ map (\<lambda>(name, count).
                            ljust 9 name @ '': survived '' @ str_int count @ '' / ''
                              @ str_int (total_frames ?s) @ '' frames'')
                       (survival ?s)"
      by (rule conjunct2 [THEN conjunct1], rule conjunct1,
          rule conjunct2 [THEN conjunct2, THEN conjunct2])
    show "\<exists>s. run_tracking env wd video_path methods
                  = Inr (Finished s (drop (frames_consumed (stream wd)) (stream wd)))
             \<and> total_frames s = int (frames_consumed (stream wd))
             \<and> map fst (survival s) = init_order env frame0 (x, y, w, h) methods
             \<and> out s = out (init_session env frame0 (x, y, w, h) methods)
                   @ [CHR 0x0A # ''=== Tracking survival summary ==='',
                      ''Total frames processed: '' @ str_int (total_frames s)]
                   @ map (\<lambda>(name, count).
                            ljust 9 name @ '': survived '' @ str_int count @ '' / ''
                              @ str_int (total_frames s) @ '' frames'')
                       (survival s)"
      by (intro exI conjI) (rule r' t k o)+
  qed
  show "updates_ok env \<longrightarrow> \<not> isl (run_tracking env wd video_path methods)"
  proof (rule impI)
    assume "updates_ok env"
    from session_after_calm [OF this, of frame0 "(x, y, w, h)" methods "stream wd"] sa
    have "e0 = None" by simp
    with rt show "\<not> isl (run_tracking env wd video_path methods)" by simp
  qed
qed

theorem final_report_witness:
  "\<exists>s. run_tracking demo_env demo_world ''video.mp4'' [''csrt'', ''template'', ''kcf'', ''csrt'']
          = Inr (Finished s [])
     \<and> total_frames s = 4
     \<and> lost s = [(''template'', True), (''csrt'', True)]
     \<and> out s = out (init_session demo_env demo_frame0 (5, 5, 20, 20)
                     [''csrt'', ''template'', ''kcf'', ''csrt''])
           @ [CHR 0x0A # ''=== Tracking survival summary ==='',
              ''Total frames processed: 4'',
              ''template : survived 2 / 4 frames'',
              ''csrt     : survived 2 / 4 frames'']"
proof -
  let ?ms = "[''csrt'', ''template'', ''kcf'', ''csrt'']"
  have w: "isOpened demo_world" "first_frame demo_world = Some demo_frame0"
    "selectROI demo_world = (5, 5, 20, 20)" "stream demo_world = demo_cap"
    by (simp_all add: demo_world_def demo_box_def)
  have nz: "(20::int) \<noteq> 0" by simp
  have ne: "init_order demo_env demo_frame0 (5, 5, 20, 20) ?ms \<noteq> []" by code_simp
  have ev: "case run_tracking demo_env demo_world ''video.mp4'' ?ms of
              Inl e \<Rightarrow> False
            | Inr (Aborted s u) \<Rightarrow> False
            | Inr (Finished s u) \<Rightarrow> u = [] \<and> total_frames s = 4
                \<and> survival s = [(''template'', 2), (''csrt'', 2)]
                \<and> lost s = [(''template'', True), (''csrt'', True)]"
    by code_simp
  have str: "str_int 4 = ''4''" "str_int 2 = ''2''" "ljust 9 ''template'' = ''template ''"
    "ljust 9 ''csrt'' = ''csrt     ''"
    by code_simp+
  note fr = final_report [OF w(1,2,3) nz nz ne, of "''video.mp4''"]
  from fr [THEN conjunct2] demo_env_behaves
  have fin: "\<not> isl (run_tracking demo_env demo_world ''video.mp4'' ?ms)" by simp
  from fr [THEN conjunct1, rule_format, OF fin] obtain s where
    all: "run_tracking demo_env demo_world ''video.mp4'' ?ms
          = Inr (Finished s (drop (frames_consumed (stream demo_world)) (stream demo_world)))
       \<and> total_frames s = int (frames_consumed (stream demo_world))
       \<and> map fst (survival s) = init_order demo_env demo_frame0 (5, 5, 20, 20) ?ms
       \<and> out s = out (init_session demo_env demo_frame0 (5, 5, 20, 20) ?ms)
                 @ [CHR 0x0A # ''=== Tracking survival summary ==='',
                    ''Total frames processed: '' @ str_int (total_frames s)]
                 @ map (\<lambda>(name, count).
                          ljust 9 name @ '': survived '' @ str_int count @ '' / ''
                            @ str_int (total_frames s) @ '' frames'')
                     (survival s)"
    by (rule exE)
  note r = all [THEN conjunct1]
  note o = all [THEN conjunct2, THEN conjunct2, THEN conjunct2]
  from ev r have u: "drop (frames_consumed (stream demo_world)) (stream demo_world) = []"
    and t: "total_frames s = 4" and c: "survival s = [(''template'', 2), (''csrt'', 2)]"
    and l: "lost s = [(''template'', True), (''csrt'', True)]"
    by simp_all
  from o t c str have "out s = out (init_session demo_env demo_frame0 (5, 5, 20, 20) ?ms)
           @ [CHR 0x0A # ''=== Tracking survival summary ==='',
              ''Total frames processed: 4'',
              ''template : survived 2 / 4 frames'',
              ''csrt     : survived 2 / 4 frames'']"
    by simp
  with r u t l show ?thesis by simp
qed

text \<open>
  C8 as stated fails on the form of the line: for the method \<^verbatim>\<open>csrt\<close> the line printed
  is not \<^verbatim>\<open>csrt: survived 2 / 4 frames\<close>, the name is padded to nine columns; and a
  header line comes before the line with the total.
\<close>

theorem plain_name_line_counterexample:
  "run_tracking demo_env demo_world ''video.mp4'' [''csrt''] =
     Inr (Finished
            \<lparr>trackers = [(''csrt'', Some 3)], lost = [(''csrt'', True)],
             survival = [(''csrt'', 2)], total_frames = 4,
             out = roi_prompt
               @ [''[INFO] Initialized tracker: csrt'',
                  CHR 0x0A # ''=== Tracking survival summary ==='',
                  ''Total frames processed: 4'',
                  ''csrt     : survived 2 / 4 frames''],
             calls = [UpdateCall ''csrt'' 1, UpdateCall ''csrt'' 2, UpdateCall ''csrt'' 3]\<rparr>
            [])
   \<and> ''csrt     : survived 2 / 4 frames'' \<noteq> ''csrt: survived 2 / 4 frames''"
  by code_simp

text \<open>
  C10, amended. Whatever the methods list repeats, the session holds at most one entry
  per name: the keys of the three dictionaries are the same list without repetition,
  and they are the requested names that are the template or whose construction and
  initialization succeed (a name whose try block raises has no entry). This holds in the
  session after any frames, however the loop ended. The summary has one line per key.
  A successful initialization of a name already present keeps the keys as they are and
  stores the new tracker, the flag false and the count 0.
\<close>

theorem duplicates_collapse:
  fixes env :: "('f, 'g, 'tr) cv2"
  shows
    "(\<exists>s unread err. session_after env frame0 box methods cap = (s, unread, err)
        \<and> (updates_ok env \<longrightarrow> err = None)
        \<and> (err = None \<longrightarrow> unread = drop (frames_consumed cap) cap)
        \<and> distinct (map fst (trackers s))
        \<and> map fst (lost s) = map fst (trackers s)
        \<and> map fst (survival s) = map fst (trackers s)
        \<and> set (map fst (trackers s))
             = {m \<in> set methods. m = ''template'' \<or> initializes env frame0 box m}
        \<and> summary s = take 2 (summary s) @ map (summary_line (total_frames s)) (survival s))
     \<and> (\<forall>m t (s0 :: 'tr session).
          m \<noteq> ''template'' \<and> try_init env frame0 box m = Inr t
          \<and> m \<in> set (map fst (trackers s0)) \<longrightarrow>
          map fst (trackers (init_one env frame0 box m s0)) = map fst (trackers s0)
          \<and> map_of (trackers (init_one env frame0 box m s0)) m = Some (Some t)
          \<and> map_of (lost (init_one env frame0 box m s0)) m = Some False
          \<and> map_of (survival (init_one env frame0 box m s0)) m = Some 0)"
proof (rule conjI)
  obtain s unread err where
    s: "session_after env frame0 box methods cap = (s, unread, err)"
    by (cases "session_after env frame0 box methods cap") auto
  from session_after_facts [OF s]
  have ok: "session_ok (make_template env frame0 box methods) s"
    and n: "names s = init_order env frame0 box methods" by auto
  have calm: "updates_ok env \<longrightarrow> err = None"
    using session_after_calm [of env frame0 box methods cap] s by simp
  have nrm: "err = None \<longrightarrow> unread = drop (frames_consumed cap) cap"
    using session_after_normal [of env frame0 box methods cap s unread] s by simp
  from n have k: "map fst (trackers s) = init_order env frame0 box methods"
    by (simp add: names_def)
  have d: "distinct (map fst (trackers s))" unfolding k by (rule init_order_distinct)
  from ok have e: "map fst (lost s) = map fst (trackers s)"
    "map fst (survival s) = map fst (trackers s)" by (simp_all add: session_ok_def names_def)
  have st: "set (map fst (trackers s))
             = {m \<in> set methods. m = ''template'' \<or> initializes env frame0 box m}"
    unfolding k by (rule init_order_set)
  have summ: "summary s = take 2 (summary s) @ map (summary_line (total_frames s)) (survival s)"
    by (simp add: summary_def)
  show "\<exists>s unread err. session_after env frame0 box methods cap = (s, unread, err)
        \<and> (updates_ok env \<longrightarrow> err = None)
        \<and> (err = None \<longrightarrow> unread = drop (frames_consumed cap) cap)
        \<and> distinct (map fst (trackers s))
        \<and> map fst (lost s) = map fst (trackers s)
        \<and> map fst (survival s) = map fst (trackers s)
        \<and> set (map fst (trackers s))
             = {m \<in> set methods. m = ''template'' \<or> initializes env frame0 box m}
        \<and> summary s = take 2 (summary s) @ map (summary_line (total_frames s)) (survival s)"
    by (intro exI conjI) (rule s calm nrm d e st summ)+
next
  show "\<forall>m t (s0 :: 'tr session).
          m \<noteq> ''template'' \<and> try_init env frame0 box m = Inr t
          \<and> m \<in> set (map fst (trackers s0)) \<longrightarrow>
          map fst (trackers (init_one env frame0 box m s0)) = map fst (trackers s0)
          \<and> map_of (trackers (init_one env frame0 box m s0)) m = Some (Some t)
          \<and> map_of (lost (init_one env frame0 box m s0)) m = Some False
          \<and> map_of (survival (init_one env frame0 box m s0)) m = Some 0"
  proof (intro allI impI)
  fix m t and s0 :: "'tr session"
  assume h: "m \<noteq> ''template'' \<and> try_init env frame0 box m = Inr t
          \<and> m \<in> set (map fst (trackers s0))"
  then have eq: "init_one env frame0 box m s0 =
             s0\<lparr>trackers := AList.update m (Some t) (trackers s0),
               lost := AList.update m False (lost s0),
               survival := AList.update m 0 (survival s0),
               out := out s0 @ [info_line m]\<rparr>"
    by (simp add: init_one_def)
  from h have "map fst (AList.update m (Some t) (trackers s0)) = map fst (trackers s0)"
    by (simp add: update_keys_member)
  then show "map fst (trackers (init_one env frame0 box m s0)) = map fst (trackers s0)
          \<and> map_of (trackers (init_one env frame0 box m s0)) m = Some (Some t)
          \<and> map_of (lost (init_one env frame0 box m s0)) m = Some False
          \<and> map_of (survival (init_one env frame0 box m s0)) m = Some 0"
    unfolding eq by (simp add: update_conv')
  qed
qed

theorem duplicates_collapse_witness:
  "(\<exists>s. session_after demo_env demo_frame0 demo_box [''csrt'', ''template'', ''csrt'', ''csrt'']
           demo_cap = (s, [], None)
      \<and> distinct (map fst (trackers s))
      \<and> map fst (survival s) = [''template'', ''csrt''])
   \<and> trackers (init_session demo_env demo_frame0 demo_box [''csrt'']) = [(''csrt'', Some 0)]
   \<and> try_init demo_env demo_frame0 demo_box ''csrt'' = Inr 0
   \<and> map fst (trackers (init_one demo_env demo_frame0 demo_box ''csrt''
                         (init_session demo_env demo_frame0 demo_box [''csrt''])))
       = [''csrt'']
   \<and> map_of (survival (init_one demo_env demo_frame0 demo_box ''csrt''
                         (init_session demo_env demo_frame0 demo_box [''csrt'']))) ''csrt''
       = Some 0"
proof -
  let ?ms = "[''csrt'', ''template'', ''csrt'', ''csrt'']"
  let ?s0 = "init_session demo_env demo_frame0 demo_box [''csrt'']"
  note dc = duplicates_collapse [of demo_env demo_frame0 demo_box ?ms demo_cap]
  note dc1 = dc [THEN conjunct1]
  note dc2 = dc [THEN conjunct2, rule_format, of "''csrt''" 0 ?s0]
  have ev: "case session_after demo_env demo_frame0 demo_box ?ms demo_cap of
              (s, u, err) \<Rightarrow> map fst (survival s) = [''template'', ''csrt'']"
    by code_simp
  have fc: "drop (frames_consumed demo_cap) demo_cap = []" by code_simp
  from dc1 obtain s unread err where
    all: "session_after demo_env demo_frame0 demo_box ?ms demo_cap = (s, unread, err)
        \<and> (updates_ok demo_env \<longrightarrow> err = None)
        \<and> (err = None \<longrightarrow> unread = drop (frames_consumed demo_cap) demo_cap)
        \<and> distinct (map fst (trackers s))
        \<and> map fst (lost s) = map fst (trackers s)
        \<and> map fst (survival s) = map fst (trackers s)
        \<and> set (map fst (trackers s))
             = {m \<in> set ?ms. m = ''template'' \<or> initializes demo_env demo_frame0 demo_box m}
        \<and> summary s = take 2 (summary s) @ map (summary_line (total_frames s)) (survival s)"
    by (elim exE)
  note s = all [THEN conjunct1]
  note calm = all [THEN conjunct2, THEN conjunct1]
  note nrm = all [THEN conjunct2, THEN conjunct2, THEN conjunct1]
  note d = all [THEN conjunct2, THEN conjunct2, THEN conjunct2, THEN conjunct1]
  from calm demo_env_behaves have e: "err = None" by (rule mp)
  from nrm e have "unread = drop (frames_consumed demo_cap) demo_cap" by (rule mp)
  then have u: "unread = []" unfolding fc .
  from ev have "case (s, unread, err) of
              (s, u, err) \<Rightarrow> map fst (survival s) = [''template'', ''csrt'']"
    unfolding s .
  then have k: "map fst (survival s) = [''template'', ''csrt'']" by simp
  from s have first: "session_after demo_env demo_frame0 demo_box ?ms demo_cap = (s, [], None)"
    unfolding u e .
  have tr: "trackers ?s0 = [(''csrt'', Some 0)]" by code_simp
  have ti: "try_init demo_env demo_frame0 demo_box ''csrt'' = Inr 0" by code_simp
  have pre: "''csrt'' \<noteq> ''template'' \<and> try_init demo_env demo_frame0 demo_box ''csrt'' = Inr 0
          \<and> ''csrt'' \<in> set (map fst (trackers ?s0))"
    unfolding tr ti by simp
  note post = dc2 [OF pre]
  note once = post [THEN conjunct1]
  note zero = post [THEN conjunct2, THEN conjunct2, THEN conjunct2]
  have once': "map fst (trackers (init_one demo_env demo_frame0 demo_box ''csrt'' ?s0))
                   = [''csrt'']"
    using once unfolding tr by simp
  have part1: "\<exists>s. session_after demo_env demo_frame0 demo_box ?ms demo_cap = (s, [], None)
      \<and> distinct (map fst (trackers s))
      \<and> map fst (survival s) = [''template'', ''csrt'']"
  proof (intro exI conjI)
    show "session_after demo_env demo_frame0 demo_box ?ms demo_cap = (s, [], None)"
      by (rule first)
    show "distinct (map fst (trackers s))" by (rule d)
    show "map fst (survival s) = [''template'', ''csrt'']" by (rule k)
  qed
  show ?thesis
  proof (intro conjI)
    show "\<exists>s. session_after demo_env demo_frame0 demo_box ?ms demo_cap = (s, [], None)
      \<and> distinct (map fst (trackers s))
      \<and> map fst (survival s) = [''template'', ''csrt'']" by (rule part1)
    show "trackers ?s0 = [(''csrt'', Some 0)]" by (rule tr)
    show "try_init demo_env demo_frame0 demo_box ''csrt'' = Inr 0" by (rule ti)
    show "map fst (trackers (init_one demo_env demo_frame0 demo_box ''csrt'' ?s0)) = [''csrt'']"
      by (rule once')
    show "map_of (survival (init_one demo_env demo_frame0 demo_box ''csrt'' ?s0)) ''csrt'' = Some 0"
      by (rule zero)
  qed
qed

text \<open>
  C10 as stated fails for a repeated name that cannot be constructed: with the methods
  \<^verbatim>\<open>kcf kcf csrt\<close>, two distinct names, the session holds no entry for \<^verbatim>\<open>kcf\<close> and
  the summary has the one line of \<^verbatim>\<open>csrt\<close>.
\<close>

theorem failed_duplicate_counterexample:
  "run_tracking demo_env demo_world ''video.mp4'' [''kcf'', ''kcf'', ''csrt''] =
     Inr (Finished
            \<lparr>trackers = [(''csrt'', Some 3)], lost = [(''csrt'', True)],
             survival = [(''csrt'', 2)], total_frames = 4,
             out = roi_prompt
               @ [warn_line ''kcf'' (CvError ''no KCF''),
                  warn_line ''kcf'' (CvError ''no KCF''),
                  ''[INFO] Initialized tracker: csrt'',
                  CHR 0x0A # ''=== Tracking survival summary ==='',
                  ''Total frames processed: 4'',
                  ''csrt     : survived 2 / 4 frames''],
             calls = [UpdateCall ''csrt'' 1, UpdateCall ''csrt'' 2, UpdateCall ''csrt'' 3]\<rparr>
            [])
   \<and> filter (\<lambda>item. fst item = ''kcf'')
        (trackers (init_session demo_env demo_frame0 demo_box [''kcf'', ''kcf'', ''csrt''])) = []
   \<and> remdups [''kcf'', ''kcf'', ''csrt''] = [''kcf'', ''csrt'']"
  by code_simp

end
